theory Spec2Isabelle
  imports Main
begin

section \<open>JavaScript objects used as dictionaries\<close>

text \<open>
  \<open>BaseLayers\<close>, \<open>Overlays\<close>, \<open>Map.levels\<close> and \<open>Config.layers\<close> are plain JavaScript
  objects indexed by strings. An object is represented by the list of its own properties
  in creation order. Reading \<open>ob[k]\<close> is \<open>obj_get\<close> (\<open>None\<close> stands for \<open>undefined\<close>),
  the assignment \<open>ob[k] = v\<close> is \<open>obj_set\<close>: it replaces the value of an existing
  property in place and appends a new property otherwise.

  A \<open>for (const k in ob)\<close> loop visits the own property names in the order of
  \<open>OrdinaryOwnPropertyKeys\<close>: first the names that are array indices (canonical decimal
  numerals below \<open>2^32 - 1\<close>) in ascending numeric order, then every other name in
  creation order. \<open>own_keys\<close> computes this order, \<open>own_entries\<close> pairs every visited
  name with the value read under it. Properties inherited from \<open>Object.prototype\<close> are
  not enumerable and are outside the model: a name such as \<open>constructor\<close> or
  \<open>__proto__\<close> is a key like any other here.
\<close>

type_synonym 'v obj = "(string \<times> 'v) list"

definition obj_get :: "'v obj \<Rightarrow> string \<Rightarrow> 'v option" where
  "obj_get ob k = map_of ob k"

definition obj_set :: "'v obj \<Rightarrow> string \<Rightarrow> 'v \<Rightarrow> 'v obj" where
  "obj_set ob k v =
     (if k \<in> fst ` set ob
      then map (\<lambda>(k', v'). if k' = k then (k', v) else (k', v')) ob
      else ob @ [(k, v)])"

definition is_digit :: "char \<Rightarrow> bool" where
  "is_digit c \<longleftrightarrow> c \<in> set ''0123456789''"

definition digit_val :: "char \<Rightarrow> int" where
  "digit_val c = of_char c - 48"

definition dec_val :: "string \<Rightarrow> int" where
  "dec_val s = foldl (\<lambda>n c. 10 * n + digit_val c) 0 s"

definition is_array_index :: "string \<Rightarrow> bool" where
  "is_array_index s =
     (case s of
        [] \<Rightarrow> False
      | c # cs \<Rightarrow> list_all is_digit s \<and> (c \<noteq> CHR ''0'' \<or> cs = []) \<and> dec_val s < 4294967295)"

definition own_keys :: "'v obj \<Rightarrow> string list" where
  "own_keys ob =
     (let ks = remdups (map fst ob)
      in sort_key dec_val (filter is_array_index ks) @ filter (\<lambda>k. \<not> is_array_index k) ks)"

definition own_entries :: "'v obj \<Rightarrow> (string \<times> 'v) list" where
  "own_entries ob = List.map_filter (\<lambda>k. map_option (Pair k) (obj_get ob k)) (own_keys ob)"

section \<open>Data model\<close>

text \<open>
  The types \<open>Map\<close>, \<open>Config\<close>, \<open>FileLayerPathGetter\<close>, \<open>BaseLayers\<close> and \<open>Overlays\<close> are
  imported by \<open>webmap.ts\<close> from the package index. The source reads the fields below;
  the type of the bounds is left open (\<open>'b\<close>), the code only passes them on.
\<close>

text \<open>Modelled from the spec: a level has an optional ordered sequence of underlay names.\<close>

record Level =
  underlays :: "string list option"

text \<open>Modelled from the spec: the map description (bounds, ordered layer names, levels by
  name, name of the main level).\<close>

record 'b Map =
  bounds :: 'b
  layers :: "string list"
  levels :: "Level obj"
  mainLevel :: string

text \<open>Modelled from the spec: \<open>layerSettings\<close> is absent, or \<open>{type: 'Tiles', tileSize}\<close>, or a
  variant that is not \<open>Tiles\<close>; \<open>layers\<close> maps a layer identifier to its \<open>display\<close> label.\<close>

datatype LayerSettings = Tiles (tileSize: int) | NotTiles

record LayerConfig =
  display :: string

record Config =
  layerSettings :: "LayerSettings option"
  config_layers :: "LayerConfig obj"

text \<open>
  The path getter takes the map name, a level or underlay name and a layer name. The
  layer name in the third position is \<open>this.map.layers[0]\<close> at two call sites, which is
  \<open>undefined\<close> for an empty \<open>layers\<close> array: the third argument is an option.
\<close>

type_synonym FileLayerPathGetter = "string \<Rightarrow> string \<Rightarrow> string option \<Rightarrow> string"

subsection \<open>Leaflet layers\<close>

text \<open>
  Leaflet layers are objects, compared by reference. Every layer constructed by the
  Webmap carries the serial number of its construction as its identity. A visual is a
  tile layer (URL template and the options \<open>className\<close>, \<open>bounds\<close>, \<open>maxZoom\<close>,
  \<open>maxNativeZoom\<close>, \<open>tileSize\<close>) or an image overlay (URL, bounds and the option
  \<open>className\<close>); a layer group holds its member layers in the order they were added.
\<close>

datatype 'b visual =
    TileLayer string "string option" 'b int int int
  | ImageOverlay string 'b "string option"

datatype 'b leaf = Leaf (leaf_id: nat) (leaf_visual: "'b visual")

datatype 'b group = Group (group_id: nat) (members: "'b leaf list")

datatype 'b layer = LeafLayer "'b leaf" | GroupLayer "'b group"

fun layer_id :: "'b layer \<Rightarrow> nat" where
  "layer_id (LeafLayer l) = leaf_id l"
| "layer_id (GroupLayer g) = group_id g"

type_synonym 'b BaseLayers = "'b group obj"

type_synonym 'b Overlays = "'b leaf obj obj"


subsection \<open>The map view and the layer-selection control\<close>

text \<open>
  Modelled from the spec: the map view (\<open>L.Map\<close>) supports setting the maximum pan bounds,
  fitting the view to bounds, adding a layer, and subscribing to the base-layer-change
  notification. The view records the bounds last set, the layers added to it in order,
  and how many handlers of \<open>baselayerchange\<close> are subscribed. The one layer the Webmap
  adds is a group it has just constructed, so \<open>addLayer\<close> never meets a layer the view
  already has.
\<close>

record 'b view =
  maxBounds :: "'b option"
  fitted :: "'b option"
  view_layers :: "'b layer list"
  baselayerchange_handlers :: nat

definition setMaxBounds :: "'b \<Rightarrow> 'b view \<Rightarrow> 'b view" where
  "setMaxBounds b v = v\<lparr>maxBounds := Some b\<rparr>"

definition fitBounds :: "'b \<Rightarrow> 'b view \<Rightarrow> 'b view" where
  "fitBounds b v = v\<lparr>fitted := Some b\<rparr>"

definition addLayer :: "'b layer \<Rightarrow> 'b view \<Rightarrow> 'b view" where
  "addLayer l v = v\<lparr>view_layers := view_layers v @ [l]\<rparr>"

definition on_baselayerchange :: "'b view \<Rightarrow> 'b view" where
  "on_baselayerchange v = v\<lparr>baselayerchange_handlers := Suc (baselayerchange_handlers v)\<rparr>"

text \<open>
  Modelled from the spec: the layer-selection control (\<open>L.Control.Layers\<close>) registers a
  base-layer entry (layer, label), registers an overlay entry (layer, label) and
  unregisters the entry of a layer. As in Leaflet, the control keeps its entries in a
  list, a registration appends an entry, and \<open>removeLayer\<close> deletes the first entry
  whose layer is the given object, whatever the kind of the entry.
\<close>

datatype 'b entry = Entry (entry_layer: "'b layer") (entry_name: string) (entry_overlay: bool)

type_synonym 'b control = "'b entry list"

definition addBaseLayer :: "'b layer \<Rightarrow> string \<Rightarrow> 'b control \<Rightarrow> 'b control" where
  "addBaseLayer l name c = c @ [Entry l name False]"

definition addOverlay :: "'b layer \<Rightarrow> string \<Rightarrow> 'b control \<Rightarrow> 'b control" where
  "addOverlay l name c = c @ [Entry l name True]"

definition entry_id :: "'b entry \<Rightarrow> nat" where
  "entry_id e = layer_id (entry_layer e)"

fun removeLayer :: "'b layer \<Rightarrow> 'b control \<Rightarrow> 'b control" where
  "removeLayer l [] = []"
| "removeLayer l (e # es) =
     (if entry_id e = layer_id l then es else e # removeLayer l es)"

section \<open>The class Webmap\<close>

text \<open>
  The record has the private fields of the class under their names (\<open>_webmap\<close> is
  \<open>w_webmap\<close>, and so on; \<open>_map\<close> is the pair of the map description and the map name)
  and two fields that make effects outside the instance observable: \<open>next_id\<close> counts the
  layers constructed so far and supplies the identity of the next one, \<open>pg_calls\<close> logs
  the argument triples of the calls of the path getter in order.
\<close>

record 'b Webmap =
  w_webmap :: "'b view"
  w_map :: "'b Map \<times> string"
  w_config :: Config
  w_baseLayers :: "'b BaseLayers"
  w_overlays :: "'b Overlays"
  w_layersControl :: "'b control"
  w_pathGetter :: FileLayerPathGetter
  w_mainBaseLayer :: "('b group \<times> string) option"
  next_id :: nat
  pg_calls :: "(string \<times> string \<times> string option) list"

definition the_map :: "'b Webmap \<Rightarrow> 'b Map" where
  "the_map w = fst (w_map w)"

definition mapName :: "'b Webmap \<Rightarrow> string" where
  "mapName w = snd (w_map w)"

text \<open>\<open>this.map.layers[0]\<close>: the first layer name, \<open>undefined\<close> when there is none.\<close>

definition layers0 :: "'b Webmap \<Rightarrow> string option" where
  "layers0 w = (case layers (the_map w) of [] \<Rightarrow> None | x # _ \<Rightarrow> Some x)"

text \<open>\<open>this.map.layers.slice(1)\<close>: the layer names after the first, none for an empty array.\<close>

definition layers_slice1 :: "'b Webmap \<Rightarrow> string list" where
  "layers_slice1 w = drop 1 (layers (the_map w))"

subsection \<open>Construction\<close>

text \<open>
  The parameters of the constructor; \<open>getLayerFolder\<close> and \<open>getLayerImage\<close>, the two
  default path getters the source imports, are parameters of the model. The control is
  created empty; no layer has been constructed by the instance.
\<close>

record 'b WebmapParameters =
  p_webmap :: "'b view"
  p_config :: Config
  p_map :: "'b Map \<times> string"
  p_pathGetter :: "FileLayerPathGetter option"

definition Webmap_new ::
  "FileLayerPathGetter \<Rightarrow> FileLayerPathGetter \<Rightarrow> 'b WebmapParameters \<Rightarrow> 'b Webmap" where
  "Webmap_new getLayerFolder getLayerImage params =
     \<lparr>w_webmap = p_webmap params,
      w_map = p_map params,
      w_config = p_config params,
      w_baseLayers = [],
      w_overlays = [],
      w_layersControl = [],
      w_pathGetter =
        (case p_pathGetter params of
           None \<Rightarrow>
             (case layerSettings (p_config params) of
                Some (Tiles ts) \<Rightarrow> getLayerFolder
              | _ \<Rightarrow> getLayerImage)
         | Some pg \<Rightarrow> pg),
      w_mainBaseLayer = None,
      next_id = 0,
      pg_calls = []\<rparr>"

subsection \<open>Constructing layers\<close>

definition call_pathGetter ::
  "string \<Rightarrow> string \<Rightarrow> string option \<Rightarrow> 'b Webmap \<Rightarrow> string \<times> 'b Webmap" where
  "call_pathGetter a b c w =
     (w_pathGetter w a b c, w\<lparr>pg_calls := pg_calls w @ [(a, b, c)]\<rparr>)"

definition new_leaf :: "'b visual \<Rightarrow> 'b Webmap \<Rightarrow> 'b leaf \<times> 'b Webmap" where
  "new_leaf v w = (Leaf (next_id w) v, w\<lparr>next_id := Suc (next_id w)\<rparr>)"

text \<open>\<open>L.layerGroup(layers)\<close> and \<open>group.addLayer(layer)\<close>.\<close>

definition layerGroup :: "'b leaf list \<Rightarrow> 'b Webmap \<Rightarrow> 'b group \<times> 'b Webmap" where
  "layerGroup ls w = (Group (next_id w) ls, w\<lparr>next_id := Suc (next_id w)\<rparr>)"

definition group_addLayer :: "'b group \<Rightarrow> 'b leaf \<Rightarrow> 'b group" where
  "group_addLayer g l = Group (group_id g) (members g @ [l])"

text \<open>Lines 140-165: one underlay of a level.\<close>

definition make_underlay :: "string \<Rightarrow> 'b Webmap \<Rightarrow> 'b leaf \<times> 'b Webmap" where
  "make_underlay underlayName w =
     (case layerSettings (w_config w) of
        Some (Tiles ts) \<Rightarrow>
          (let (path, w1) = call_pathGetter (mapName w) underlayName (layers0 w) w
           in new_leaf (TileLayer (path @ ''/{z}/{x}/{y}.png'') (Some ''UnderlayLayer'')
                 (bounds (the_map w)) 4 4 ts) w1)
      | _ \<Rightarrow>
          (let (path, w1) = call_pathGetter (mapName w) underlayName (layers0 w) w
           in new_leaf (ImageOverlay path (bounds (the_map w)) (Some ''UnderlayLayer'')) w1))"

text \<open>Lines 171-192: the primary visual of a level.\<close>

definition make_baseLayer :: "string \<Rightarrow> 'b Webmap \<Rightarrow> 'b leaf \<times> 'b Webmap" where
  "make_baseLayer levelName w =
     (case layerSettings (w_config w) of
        Some (Tiles ts) \<Rightarrow>
          (let (path, w1) = call_pathGetter (mapName w) levelName (layers0 w) w
           in new_leaf (TileLayer (path @ ''/{z}/{x}/{y}.png'') None
                 (bounds (the_map w)) 4 4 ts) w1)
      | _ \<Rightarrow>
          (let (path, w1) = call_pathGetter (mapName w) levelName (layers0 w) w
           in new_leaf (ImageOverlay path (bounds (the_map w)) None) w1))"

text \<open>Lines 210-231: one overlay of a level.\<close>

definition make_overlay :: "string \<Rightarrow> string \<Rightarrow> 'b Webmap \<Rightarrow> 'b leaf \<times> 'b Webmap" where
  "make_overlay levelName layerName w =
     (case layerSettings (w_config w) of
        Some (Tiles ts) \<Rightarrow>
          (let (path, w1) = call_pathGetter (mapName w) levelName (Some layerName) w
           in new_leaf (TileLayer (path @ ''/{z}/{x}/{y}.png'') None
                 (bounds (the_map w)) 4 4 1024) w1)
      | _ \<Rightarrow>
          (let (path, w1) = call_pathGetter (mapName w) levelName (Some layerName) w
           in new_leaf (ImageOverlay path (bounds (the_map w)) None) w1))"

subsection \<open>Building the base layers (\<open>_getBaseLayersForMap\<close>)\<close>

text \<open>The loop over \<open>level.underlays\<close>, pushing every underlay on the array \<open>underlays\<close>.\<close>

fun underlays_loop ::
  "string list \<Rightarrow> 'b leaf list \<Rightarrow> 'b Webmap \<Rightarrow> 'b leaf list \<times> 'b Webmap" where
  "underlays_loop [] unders w = (unders, w)"
| "underlays_loop (underlayName # rest) unders w =
     (let (underlay, w1) = make_underlay underlayName w
      in underlays_loop rest (unders @ [underlay]) w1)"

text \<open>
  The loop over the levels: the underlays (none when \<open>level.underlays\<close> is absent), the
  primary visual, then the group of the underlays with the primary visual added last.
\<close>

fun getBaseLayers_loop ::
  "(string \<times> Level) list \<Rightarrow> 'b BaseLayers \<Rightarrow> 'b Webmap \<Rightarrow> 'b BaseLayers \<times> 'b Webmap" where
  "getBaseLayers_loop [] baseLayers w = (baseLayers, w)"
| "getBaseLayers_loop ((levelName, level) # rest) baseLayers w =
     (let (unders, w1) =
            (case underlays level of
               None \<Rightarrow> ([], w)
             | Some names \<Rightarrow> underlays_loop names [] w);
          (baseLayer, w2) = make_baseLayer levelName w1;
          (grp, w3) = layerGroup unders w2
      in getBaseLayers_loop rest
           (obj_set baseLayers levelName (group_addLayer grp baseLayer)) w3)"

definition getBaseLayersForMap :: "'b Webmap \<Rightarrow> 'b BaseLayers \<times> 'b Webmap" where
  "getBaseLayersForMap w = getBaseLayers_loop (own_entries (levels (the_map w))) [] w"

subsection \<open>Registering the base layers (\<open>_addBaseLayersToControl\<close>)\<close>

definition addBaseLayersToControl :: "'b Webmap \<Rightarrow> 'b Webmap" where
  "addBaseLayersToControl w =
     w\<lparr>w_layersControl :=
         fold (\<lambda>(layerName, layer). addBaseLayer (GroupLayer layer) layerName)
           (own_entries (w_baseLayers w)) (w_layersControl w)\<rparr>"

subsection \<open>Building the overlays (\<open>_getOverlays\<close>)\<close>

text \<open>
  Reading \<open>layer.display\<close> of a layer name without an entry in \<open>config.layers\<close> throws a
  \<open>TypeError\<close>; it is read after the overlay of the iteration has been constructed. The
  assignment \<open>overlays[levelName][layer.display] = overlay\<close> changes the sub-object of the
  level in place; it would throw as well if \<open>overlays[levelName]\<close> were \<open>undefined\<close>, which
  the assignment \<open>overlays[levelName] = {}\<close> at the head of the outer loop excludes.
\<close>

datatype error = TypeError

fun overlays_of_level ::
  "string \<Rightarrow> string list \<Rightarrow> 'b Overlays \<Rightarrow> 'b Webmap \<Rightarrow> error + ('b Overlays \<times> 'b Webmap)" where
  "overlays_of_level levelName [] overlays w = Inr (overlays, w)"
| "overlays_of_level levelName (layerName # rest) overlays w =
     (let layer = obj_get (config_layers (w_config w)) layerName;
          (overlay, w1) = make_overlay levelName layerName w
      in case layer of
           None \<Rightarrow> Inl TypeError
         | Some lc \<Rightarrow>
             (case obj_get overlays levelName of
                None \<Rightarrow> Inl TypeError
              | Some sub \<Rightarrow>
                  overlays_of_level levelName rest
                    (obj_set overlays levelName (obj_set sub (display lc) overlay)) w1))"

fun getOverlays_loop ::
  "string list \<Rightarrow> 'b Overlays \<Rightarrow> 'b Webmap \<Rightarrow> error + ('b Overlays \<times> 'b Webmap)" where
  "getOverlays_loop [] overlays w = Inr (overlays, w)"
| "getOverlays_loop (levelName # rest) overlays w =
     (case overlays_of_level levelName (layers_slice1 w) (obj_set overlays levelName []) w of
        Inl e \<Rightarrow> Inl e
      | Inr (overlays', w') \<Rightarrow> getOverlays_loop rest overlays' w')"

definition getOverlays :: "'b Webmap \<Rightarrow> error + ('b Overlays \<times> 'b Webmap)" where
  "getOverlays w = getOverlays_loop (own_keys (levels (the_map w))) [] w"

subsection \<open>The main level (\<open>_findMainBaseLayer\<close>)\<close>

fun findMain_loop :: "(string \<times> 'b group) list \<Rightarrow> string \<Rightarrow> ('b group \<times> string) option" where
  "findMain_loop [] main = None"
| "findMain_loop ((layerName, layer) # rest) main =
     (if layerName = main then Some (layer, layerName) else findMain_loop rest main)"

definition findMainBaseLayer :: "'b Webmap \<Rightarrow> ('b group \<times> string) option" where
  "findMainBaseLayer w = findMain_loop (own_entries (w_baseLayers w)) (mainLevel (the_map w))"

subsection \<open>Synchronising the overlays (\<open>_updateOverlays\<close>)\<close>

text \<open>
  The first loop calls \<open>removeLayer\<close> for every overlay of every level. The second loop
  runs over \<open>this._overlays[targetLevel]\<close>; a \<open>for\<close>-\<open>in\<close> loop over \<open>undefined\<close> has no
  iteration and does not throw.
\<close>

definition remove_level :: "'b leaf obj \<Rightarrow> 'b control \<Rightarrow> 'b control" where
  "remove_level sub c =
     fold (\<lambda>(overlayName, overlay). removeLayer (LeafLayer overlay)) (own_entries sub) c"

definition remove_all :: "'b Overlays \<Rightarrow> 'b control \<Rightarrow> 'b control" where
  "remove_all overlays c = fold (\<lambda>(levelName, sub). remove_level sub) (own_entries overlays) c"

definition add_level :: "'b leaf obj \<Rightarrow> 'b control \<Rightarrow> 'b control" where
  "add_level sub c =
     fold (\<lambda>(overlayName, overlay). addOverlay (LeafLayer overlay) overlayName)
       (own_entries sub) c"

definition updateOverlays :: "string \<Rightarrow> 'b Webmap \<Rightarrow> 'b Webmap" where
  "updateOverlays targetLevel w =
     (let c1 = remove_all (w_overlays w) (w_layersControl w);
          c2 = (case obj_get (w_overlays w) targetLevel of
                  None \<Rightarrow> c1
                | Some sub \<Rightarrow> add_level sub c1)
      in w\<lparr>w_layersControl := c2\<rparr>)"

subsection \<open>\<open>initialize\<close>\<close>

definition initialize :: "'b Webmap \<Rightarrow> error + 'b Webmap" where
  "initialize w =
     (let wa = w\<lparr>w_webmap := setMaxBounds (bounds (the_map w)) (w_webmap w)\<rparr>;
          wb = wa\<lparr>w_webmap := fitBounds (bounds (the_map wa)) (w_webmap wa)\<rparr>;
          (baseLayers, wc) = getBaseLayersForMap wb;
          wd = addBaseLayersToControl (wc\<lparr>w_baseLayers := baseLayers\<rparr>)
      in case getOverlays wd of
           Inl e \<Rightarrow> Inl e
         | Inr (overlays, we) \<Rightarrow>
             (let wf = we\<lparr>w_overlays := overlays\<rparr>;
                  wg = wf\<lparr>w_mainBaseLayer := findMainBaseLayer wf\<rparr>;
                  wh = (case w_mainBaseLayer wg of
                          None \<Rightarrow> wg
                        | Some (layer, name) \<Rightarrow>
                            (let wu = updateOverlays name wg
                             in wu\<lparr>w_webmap := addLayer (GroupLayer layer) (w_webmap wu)\<rparr>))
              in Inr (wh\<lparr>w_webmap := on_baselayerchange (w_webmap wh)\<rparr>)))"

text \<open>
  The states of an initialized Webmap: the state \<open>initialize\<close> leaves a newly constructed
  instance in, and every state a base-layer-change notification leads to; the handler
  subscribed by \<open>initialize\<close> runs \<open>_updateOverlays\<close> with the name of the event.
\<close>

inductive reachable :: "'b Webmap \<Rightarrow> bool" where
  initialized: "initialize (Webmap_new gf gi params) = Inr w \<Longrightarrow> reachable w"
| changed: "reachable w \<Longrightarrow> reachable (updateOverlays name w)"

section \<open>Notions used in the statements\<close>

subsection \<open>The registration of the control\<close>

text \<open>
  \<open>overlay_leaves\<close> lists the overlays of \<open>Overlays\<close> in the order the first loop of
  \<open>_updateOverlays\<close> visits them, \<open>overlay_ids\<close> their identities. \<open>level_entries\<close> are the
  overlay entries \<open>_updateOverlays\<close> registers for a level: one entry per overlay of
  \<open>Overlays[levelName]\<close> under its key, none when the level has no entry in \<open>Overlays\<close>.
  \<open>overlay_entries\<close> and \<open>base_entries\<close> are the overlay entries and the base-layer entries
  of a control.
\<close>

definition overlay_leaves :: "'b Overlays \<Rightarrow> 'b leaf list" where
  "overlay_leaves ov = concat (map (\<lambda>(levelName, sub). map snd (own_entries sub)) (own_entries ov))"

definition overlay_ids :: "'b Overlays \<Rightarrow> nat list" where
  "overlay_ids ov = map leaf_id (overlay_leaves ov)"

definition level_entries :: "'b Overlays \<Rightarrow> string \<Rightarrow> 'b entry list" where
  "level_entries ov levelName =
     (case obj_get ov levelName of
        None \<Rightarrow> []
      | Some sub \<Rightarrow> map (\<lambda>(overlayName, overlay). Entry (LeafLayer overlay) overlayName True) (own_entries sub))"

definition overlay_entries :: "'b control \<Rightarrow> 'b entry list" where
  "overlay_entries c = filter entry_overlay c"

definition base_entries :: "'b control \<Rightarrow> 'b entry list" where
  "base_entries c = filter (\<lambda>e. \<not> entry_overlay e) c"

text \<open>
  Three properties of a state relate the control to \<open>Overlays\<close>: no overlay of \<open>Overlays\<close>
  is registered with the control more often than \<open>Overlays\<close> holds it (\<open>registered_within\<close>);
  every overlay entry of the control registers an overlay of \<open>Overlays\<close>
  (\<open>overlays_known\<close>); no base-layer entry of the control registers an overlay of
  \<open>Overlays\<close> (\<open>bases_apart\<close>). A state with all three is \<open>consistent\<close>.
\<close>

definition registered_within :: "'b Webmap \<Rightarrow> bool" where
  "registered_within w \<longleftrightarrow>
     (\<forall>x \<in> set (overlay_ids (w_overlays w)).
        count_list (map entry_id (w_layersControl w)) x \<le> count_list (overlay_ids (w_overlays w)) x)"

definition overlays_known :: "'b Webmap \<Rightarrow> bool" where
  "overlays_known w \<longleftrightarrow>
     (\<forall>e \<in> set (w_layersControl w). entry_overlay e \<longrightarrow> entry_id e \<in> set (overlay_ids (w_overlays w)))"

definition bases_apart :: "'b Webmap \<Rightarrow> bool" where
  "bases_apart w \<longleftrightarrow>
     (\<forall>e \<in> set (w_layersControl w). \<not> entry_overlay e \<longrightarrow> entry_id e \<notin> set (overlay_ids (w_overlays w)))"

subsection \<open>A station with two levels\<close>

text \<open>
  The map of the end-to-end scenario of the specification: layers \<open>floor\<close>, \<open>electrical\<close>
  and \<open>plumbing\<close>, the levels \<open>L1\<close> (no underlay) and \<open>L2\<close> (underlay \<open>basement\<close>), main
  level \<open>L1\<close>, the \<open>Tiles\<close> strategy with tile size 256, and a path getter that joins its
  arguments with slashes. \<open>station_state\<close> is the state \<open>initialize\<close> leaves the new instance in.
\<close>

definition station_map :: "nat Map" where
  "station_map = \<lparr>bounds = 0, layers = [''floor'', ''electrical'', ''plumbing''],
     levels = [(''L1'', \<lparr>underlays = Some []\<rparr>), (''L2'', \<lparr>underlays = Some [''basement'']\<rparr>)],
     mainLevel = ''L1''\<rparr>"

definition station_config :: Config where
  "station_config = \<lparr>layerSettings = Some (Tiles 256),
     config_layers = [(''floor'', \<lparr>display = ''Floor''\<rparr>), (''electrical'', \<lparr>display = ''Electrical''\<rparr>), (''plumbing'', \<lparr>display = ''Plumbing''\<rparr>)]\<rparr>"

definition station_pg :: FileLayerPathGetter where
  "station_pg a b c = a @ ''/'' @ b @ ''/'' @ (case c of None \<Rightarrow> ''undefined'' | Some x \<Rightarrow> x)"

definition station_params :: "nat WebmapParameters" where
  "station_params = \<lparr>p_webmap = \<lparr>maxBounds = None, fitted = None, view_layers = [], baselayerchange_handlers = 0\<rparr>,
     p_config = station_config, p_map = (station_map, ''station''), p_pathGetter = Some station_pg\<rparr>"

definition station_new :: "nat Webmap" where
  "station_new = Webmap_new station_pg station_pg station_params"

definition station_state :: "nat Webmap" where
  "station_state = (case initialize station_new of Inr w \<Rightarrow> w | Inl e \<Rightarrow> station_new)"

subsection \<open>The effect of the construction loops\<close>

text \<open>
  Constructing layers changes two fields of the state only: \<open>advance calls n\<close> appends
  \<open>calls\<close> to the log of the path getter and takes \<open>n\<close> identities. The visuals built at
  the three construction sites are \<open>underlay_visual\<close>, \<open>base_visual\<close> and
  \<open>overlay_visual\<close>; \<open>new_underlays\<close> are the underlays the loop over \<open>level.underlays\<close>
  pushes, \<open>level_group\<close> is the group built for a level and \<open>level_calls\<close>, \<open>base_calls\<close>,
  \<open>overlay_calls_level\<close> and \<open>overlay_calls\<close> are the calls of the path getter made for a
  level and for the whole map.
\<close>

definition advance :: "(string \<times> string \<times> string option) list \<Rightarrow> nat \<Rightarrow> 'b Webmap \<Rightarrow> 'b Webmap" where
  "advance calls n w = w\<lparr>next_id := next_id w + n, pg_calls := pg_calls w @ calls\<rparr>"

definition underlay_visual :: "'b Webmap \<Rightarrow> string \<Rightarrow> 'b visual" where
  "underlay_visual w underlayName =
     (case layerSettings (w_config w) of
        Some (Tiles ts) \<Rightarrow>
          TileLayer (w_pathGetter w (mapName w) underlayName (layers0 w) @ ''/{z}/{x}/{y}.png'')
            (Some ''UnderlayLayer'') (bounds (the_map w)) 4 4 ts
      | _ \<Rightarrow> ImageOverlay (w_pathGetter w (mapName w) underlayName (layers0 w))
               (bounds (the_map w)) (Some ''UnderlayLayer''))"

definition base_visual :: "'b Webmap \<Rightarrow> string \<Rightarrow> 'b visual" where
  "base_visual w levelName =
     (case layerSettings (w_config w) of
        Some (Tiles ts) \<Rightarrow>
          TileLayer (w_pathGetter w (mapName w) levelName (layers0 w) @ ''/{z}/{x}/{y}.png'')
            None (bounds (the_map w)) 4 4 ts
      | _ \<Rightarrow> ImageOverlay (w_pathGetter w (mapName w) levelName (layers0 w))
               (bounds (the_map w)) None)"

definition overlay_visual :: "'b Webmap \<Rightarrow> string \<Rightarrow> string \<Rightarrow> 'b visual" where
  "overlay_visual w levelName layerName =
     (case layerSettings (w_config w) of
        Some (Tiles ts) \<Rightarrow>
          TileLayer (w_pathGetter w (mapName w) levelName (Some layerName) @ ''/{z}/{x}/{y}.png'')
            None (bounds (the_map w)) 4 4 1024
      | _ \<Rightarrow> ImageOverlay (w_pathGetter w (mapName w) levelName (Some layerName))
               (bounds (the_map w)) None)"

definition new_underlays :: "'b Webmap \<Rightarrow> string list \<Rightarrow> 'b leaf list" where
  "new_underlays w names =
     map (\<lambda>(i, u). Leaf (next_id w + i) (underlay_visual w u)) (zip [0..<length names] names)"

definition level_underlays :: "Level \<Rightarrow> string list" where
  "level_underlays level = (case underlays level of None \<Rightarrow> [] | Some names \<Rightarrow> names)"

definition level_group :: "'b Webmap \<Rightarrow> string \<Rightarrow> Level \<Rightarrow> 'b group" where
  "level_group w levelName level =
     Group (next_id w + length (level_underlays level) + 1)
       (new_underlays w (level_underlays level)
        @ [Leaf (next_id w + length (level_underlays level)) (base_visual w levelName)])"

definition level_calls :: "'b Webmap \<Rightarrow> string \<Rightarrow> Level \<Rightarrow> (string \<times> string \<times> string option) list" where
  "level_calls w levelName level =
     map (\<lambda>u. (mapName w, u, layers0 w)) (level_underlays level) @ [(mapName w, levelName, layers0 w)]"

definition base_calls :: "'b Webmap \<Rightarrow> (string \<times> string \<times> string option) list" where
  "base_calls w =
     concat (map (\<lambda>(levelName, level). level_calls w levelName level) (own_entries (levels (the_map w))))"

text \<open>
  A layer name is \<open>configured\<close> when \<open>config.layers\<close> has an entry for it; \<open>label_of\<close> is
  the \<open>display\<close> label of that entry. \<open>level_result\<close>, \<open>level_built\<close> and \<open>loop_result\<close>
  describe what the loops of \<open>_getOverlays\<close> leave in \<open>overlays\<close>: the keys of a level are
  the labels of the names in \<open>layers.slice(1)\<close>, and each overlay stored under a label was
  built for the level and for a layer name with that label.
\<close>

definition configured :: "'b Webmap \<Rightarrow> string \<Rightarrow> bool" where
  "configured w layerName \<longleftrightarrow> obj_get (config_layers (w_config w)) layerName \<noteq> None"

definition label_of :: "'b Webmap \<Rightarrow> string \<Rightarrow> string" where
  "label_of w layerName =
     (case obj_get (config_layers (w_config w)) layerName of
        None \<Rightarrow> []
      | Some lc \<Rightarrow> display lc)"

definition overlay_calls_level :: "'b Webmap \<Rightarrow> string \<Rightarrow> string list \<Rightarrow> (string \<times> string \<times> string option) list" where
  "overlay_calls_level w levelName names = map (\<lambda>n. (mapName w, levelName, Some n)) names"

definition level_result ::
  "'b Webmap \<Rightarrow> string \<Rightarrow> string list \<Rightarrow> 'b Overlays \<Rightarrow> 'b leaf obj \<Rightarrow> 'b Overlays \<Rightarrow> 'b leaf obj \<Rightarrow> bool" where
  "level_result w k names ov sub ov' sub' \<longleftrightarrow>
       fst ` set ov' = fst ` set ov
     \<and> (\<forall>k'. k' \<noteq> k \<longrightarrow> obj_get ov' k' = obj_get ov k')
     \<and> obj_get ov' k = Some sub'
     \<and> fst ` set sub' = fst ` set sub \<union> label_of w ` set names
     \<and> (\<forall>lab l. obj_get sub' lab = Some l \<longrightarrow>
           obj_get sub lab = Some l
         \<or> (\<exists>n \<in> set names. lab = label_of w n \<and> leaf_visual l = overlay_visual w k n
               \<and> next_id w \<le> leaf_id l))"

definition level_built :: "'b Webmap \<Rightarrow> string \<Rightarrow> 'b leaf obj \<Rightarrow> bool" where
  "level_built w k sub \<longleftrightarrow>
       fst ` set sub = label_of w ` set (layers_slice1 w)
     \<and> (\<forall>lab l. obj_get sub lab = Some l \<longrightarrow>
           (\<exists>n \<in> set (layers_slice1 w). lab = label_of w n \<and> leaf_visual l = overlay_visual w k n
               \<and> next_id w \<le> leaf_id l))"

definition loop_result :: "'b Webmap \<Rightarrow> string list \<Rightarrow> 'b Overlays \<Rightarrow> 'b Overlays \<Rightarrow> bool" where
  "loop_result w ks ov ov' \<longleftrightarrow>
       fst ` set ov' = fst ` set ov \<union> set ks
     \<and> (\<forall>k sub. obj_get ov' k = Some sub \<longrightarrow>
           (k \<notin> set ks \<and> obj_get ov k = Some sub) \<or> (k \<in> set ks \<and> level_built w k sub))"

definition overlay_calls :: "'b Webmap \<Rightarrow> string list \<Rightarrow> (string \<times> string \<times> string option) list" where
  "overlay_calls w ks = concat (map (\<lambda>k. overlay_calls_level w k (layers_slice1 w)) ks)"

text \<open>
  \<open>same_env\<close> relates two states with the same map description, configuration and path
  getter. \<open>before_overlays\<close> is the state in which \<open>initialize\<close> calls \<open>_getOverlays\<close>,
  \<open>after_overlays\<close> the rest of \<open>initialize\<close> from the assignment of \<open>_overlays\<close> on;
  \<open>base_entries_of\<close> are the entries \<open>_addBaseLayersToControl\<close> registers and \<open>init_view\<close>
  is the view after its bounds have been set.
\<close>

definition same_env :: "'b Webmap \<Rightarrow> 'b Webmap \<Rightarrow> bool" where
  "same_env w w' \<longleftrightarrow> w_map w' = w_map w \<and> w_config w' = w_config w \<and> w_pathGetter w' = w_pathGetter w"

definition base_count :: "'b Webmap \<Rightarrow> nat" where
  "base_count w =
     sum_list (map (\<lambda>(k, lvl). length (level_underlays lvl) + 2) (own_entries (levels (the_map w))))"

definition base_entries_of :: "'b BaseLayers \<Rightarrow> 'b control" where
  "base_entries_of bl = map (\<lambda>(layerName, layer). Entry (GroupLayer layer) layerName False) (own_entries bl)"

definition init_view :: "'b Webmap \<Rightarrow> 'b view" where
  "init_view w = fitBounds (bounds (the_map w)) (setMaxBounds (bounds (the_map w)) (w_webmap w))"

definition before_overlays :: "'b Webmap \<Rightarrow> 'b Webmap" where
  "before_overlays w =
     (let wb = w\<lparr>w_webmap := init_view w\<rparr>;
          bl = fst (getBaseLayersForMap wb)
      in (advance (base_calls w) (base_count w) wb)
           \<lparr>w_baseLayers := bl, w_layersControl := w_layersControl w @ base_entries_of bl\<rparr>)"

definition after_overlays :: "'b Overlays \<Rightarrow> 'b Webmap \<Rightarrow> 'b Webmap" where
  "after_overlays ov we =
     (let wf = we\<lparr>w_overlays := ov\<rparr>;
          wg = wf\<lparr>w_mainBaseLayer := findMainBaseLayer wf\<rparr>;
          wh = (case w_mainBaseLayer wg of
                  None \<Rightarrow> wg
                | Some (layer, name) \<Rightarrow>
                    (let wu = updateOverlays name wg
                     in wu\<lparr>w_webmap := addLayer (GroupLayer layer) (w_webmap wu)\<rparr>))
      in wh\<lparr>w_webmap := on_baselayerchange (w_webmap wh)\<rparr>)"

definition consistent :: "'b Webmap \<Rightarrow> bool" where
  "consistent w \<longleftrightarrow> registered_within w \<and> overlays_known w \<and> bases_apart w"

text \<open>
  \<open>level_names\<close> are the level names in the order the loops visit them and \<open>main_group\<close>
  is the base layer stored under \<open>mainLevel\<close>. \<open>overlays_configured\<close> is the condition
  under which \<open>_getOverlays\<close> returns: the map has no level, or every name in
  \<open>layers.slice(1)\<close> has an entry in \<open>config.layers\<close>.
\<close>

definition level_names :: "'b Webmap \<Rightarrow> string list" where
  "level_names w = own_keys (levels (the_map w))"

definition overlays_configured :: "'b Webmap \<Rightarrow> bool" where
  "overlays_configured w \<longleftrightarrow>
     levels (the_map w) = [] \<or> (\<forall>n \<in> set (layers_slice1 w). configured w n)"

definition main_group :: "'b Webmap \<Rightarrow> 'b group option" where
  "main_group w = obj_get (w_baseLayers w) (mainLevel (the_map w))"

subsection \<open>Rendering strategies\<close>

text \<open>
  The renderings of the specification: a tile layer bound to given bounds with display
  zoom and native zoom capped at 4 and a given tile size, and an image overlay bound to
  given bounds. \<open>rendered w overlay v\<close> says that the visual \<open>v\<close> follows the strategy of
  the configuration of \<open>w\<close>: under \<open>Tiles\<close> it is tile-based, with tile size 1024 for an
  overlay and the configured tile size otherwise; under any other or absent
  \<open>layerSettings\<close> it is image-based.
\<close>

fun tile_based :: "'b \<Rightarrow> int \<Rightarrow> 'b visual \<Rightarrow> bool" where
  "tile_based b ts (TileLayer url cls b' maxZoom maxNativeZoom ts') \<longleftrightarrow>
     b' = b \<and> maxZoom = 4 \<and> maxNativeZoom = 4 \<and> ts' = ts"
| "tile_based b ts (ImageOverlay url b' cls) \<longleftrightarrow> False"

fun image_based :: "'b \<Rightarrow> 'b visual \<Rightarrow> bool" where
  "image_based b (ImageOverlay url b' cls) \<longleftrightarrow> b' = b"
| "image_based b (TileLayer url cls b' maxZoom maxNativeZoom ts') \<longleftrightarrow> False"

definition rendered :: "'b Webmap \<Rightarrow> bool \<Rightarrow> 'b visual \<Rightarrow> bool" where
  "rendered w overlay v =
     (case layerSettings (w_config w) of
        Some (Tiles ts) \<Rightarrow> tile_based (bounds (the_map w)) (if overlay then 1024 else ts) v
      | _ \<Rightarrow> image_based (bounds (the_map w)) v)"

subsection \<open>Three small maps\<close>

text \<open>
  A map with two overlay layers that share their display label (\<open>dup\<close>), a map without
  levels whose overlay layer has no entry in the configuration (\<open>bare\<close>), and a map with
  one level whose overlay layer has no entry in the configuration (\<open>missing\<close>); all use
  the image strategy.
\<close>

definition dup_params :: "nat WebmapParameters" where
  "dup_params =
     \<lparr>p_webmap = \<lparr>maxBounds = None, fitted = None, view_layers = [], baselayerchange_handlers = 0\<rparr>,
      p_config = \<lparr>layerSettings = None,
                  config_layers = [(''floor'', \<lparr>display = ''Floor''\<rparr>),
                                   (''pipes'', \<lparr>display = ''Utilities''\<rparr>),
                                   (''wires'', \<lparr>display = ''Utilities''\<rparr>)]\<rparr>,
      p_map = (\<lparr>bounds = 0, layers = [''floor'', ''pipes'', ''wires''],
                levels = [(''L1'', \<lparr>underlays = None\<rparr>)], mainLevel = ''L1''\<rparr>, ''station''),
      p_pathGetter = Some station_pg\<rparr>"

definition dup_new :: "nat Webmap" where
  "dup_new = Webmap_new station_pg station_pg dup_params"

definition dup_state :: "nat Webmap" where
  "dup_state = (case initialize dup_new of Inr w \<Rightarrow> w | Inl e \<Rightarrow> dup_new)"

definition bare_params :: "nat WebmapParameters" where
  "bare_params =
     \<lparr>p_webmap = \<lparr>maxBounds = None, fitted = None, view_layers = [], baselayerchange_handlers = 0\<rparr>,
      p_config = \<lparr>layerSettings = None, config_layers = []\<rparr>,
      p_map = (\<lparr>bounds = 0, layers = [''floor'', ''wires''], levels = [], mainLevel = ''L1''\<rparr>,
               ''station''),
      p_pathGetter = Some station_pg\<rparr>"

definition bare_new :: "nat Webmap" where
  "bare_new = Webmap_new station_pg station_pg bare_params"

definition missing_params :: "nat WebmapParameters" where
  "missing_params =
     \<lparr>p_webmap = \<lparr>maxBounds = None, fitted = None, view_layers = [], baselayerchange_handlers = 0\<rparr>,
      p_config = \<lparr>layerSettings = None, config_layers = [(''floor'', \<lparr>display = ''Floor''\<rparr>)]\<rparr>,
      p_map = (\<lparr>bounds = 0, layers = [''floor'', ''wires''],
                levels = [(''L1'', \<lparr>underlays = None\<rparr>)], mainLevel = ''L1''\<rparr>, ''station''),
      p_pathGetter = Some station_pg\<rparr>"

definition missing_new :: "nat Webmap" where
  "missing_new = Webmap_new station_pg station_pg missing_params"

section \<open>Properties of the object operations\<close>

lemma set_own_keys: "set (own_keys ob) = fst ` set ob"
  by (auto simp: own_keys_def Let_def)

lemma distinct_own_keys: "distinct (own_keys ob)"
  by (auto simp: own_keys_def Let_def)

lemma obj_get_own_key: "k \<in> set (own_keys ob) \<Longrightarrow> \<exists>v. obj_get ob k = Some v"
  by (metis set_own_keys obj_get_def map_of_eq_None_iff not_Some_eq)

lemma own_entries_map: "own_entries ob = map (\<lambda>k. (k, the (obj_get ob k))) (own_keys ob)"
proof -
  have "List.map_filter (\<lambda>k. map_option (Pair k) (obj_get ob k)) ks
        = map (\<lambda>k. (k, the (obj_get ob k))) ks" if "set ks \<subseteq> set (own_keys ob)" for ks
    using that
  proof (induction ks)
    case Nil
    show ?case by simp
  next
    case (Cons k ks)
    then obtain v where "obj_get ob k = Some v" using obj_get_own_key by fastforce
    with Cons show ?case by simp
  qed
  then show ?thesis by (simp add: own_entries_def)
qed

lemma map_fst_own_entries: "map fst (own_entries ob) = own_keys ob"
  by (simp add: own_entries_map comp_def)

lemma own_entries_iff: "(k, v) \<in> set (own_entries ob) \<longleftrightarrow> obj_get ob k = Some v"
proof
  assume "(k, v) \<in> set (own_entries ob)"
  then have "k \<in> set (own_keys ob)" "v = the (obj_get ob k)"
    by (auto simp: own_entries_map)
  then show "obj_get ob k = Some v" using obj_get_own_key by fastforce
next
  assume a: "obj_get ob k = Some v"
  then have "k \<in> fst ` set ob" by (metis obj_get_def map_of_eq_None_iff option.distinct(1))
  then have "k \<in> set (own_keys ob)" by (simp add: set_own_keys)
  with a show "(k, v) \<in> set (own_entries ob)" by (force simp: own_entries_map)
qed

lemma map_of_replace_same:
  "k \<in> fst ` set xs \<Longrightarrow>
   map_of (map (\<lambda>(k', v'). if k' = k then (k', v) else (k', v')) xs) k = Some v"
  by (induction xs) (auto split: prod.splits)

lemma map_of_replace_other:
  "k' \<noteq> k \<Longrightarrow>
   map_of (map (\<lambda>(k', v'). if k' = k then (k', v) else (k', v')) xs) k' = map_of xs k'"
  by (induction xs) (auto split: prod.splits)

lemma obj_get_obj_set: "obj_get (obj_set ob k v) k' = (if k' = k then Some v else obj_get ob k')"
proof (cases "k \<in> fst ` set ob")
  case True
  then show ?thesis
    by (simp add: obj_get_def obj_set_def map_of_replace_same map_of_replace_other)
next
  case False
  then have "map_of ob k = None" by (simp add: map_of_eq_None_iff)
  with False show ?thesis by (auto simp: obj_get_def obj_set_def map_add_def split: option.splits)
qed

lemma keys_obj_set: "fst ` set (obj_set ob k v) = insert k (fst ` set ob)"
  by (force simp: obj_set_def split: if_splits)

lemma own_keys_order:
  "own_keys [(''b'', ()), (''10'', ()), (''2'', ()), (''02'', ()), (''a'', ())]
   = [''2'', ''10'', ''b'', ''02'', ''a'']"
  by code_simp

section \<open>The removal loop of \<open>_updateOverlays\<close>\<close>

lemma remove_level_fold:
  "remove_level sub c = fold (\<lambda>l. removeLayer (LeafLayer l)) (map snd (own_entries sub)) c"
  by (simp add: remove_level_def fold_map comp_def case_prod_unfold)

lemma remove_all_fold:
  "remove_all ov c = fold (\<lambda>l. removeLayer (LeafLayer l)) (overlay_leaves ov) c"
proof -
  have "fold (\<lambda>(levelName, sub). remove_level sub) xs c
        = fold (\<lambda>l. removeLayer (LeafLayer l)) (concat (map (\<lambda>(levelName, sub). map snd (own_entries sub)) xs)) c"
    for xs :: "(string \<times> 'a leaf obj) list"
    by (induction xs arbitrary: c) (auto simp: remove_level_fold)
  then show ?thesis by (simp add: remove_all_def overlay_leaves_def)
qed

lemma add_level_append:
  "add_level sub c = c @ map (\<lambda>(overlayName, overlay). Entry (LeafLayer overlay) overlayName True) (own_entries sub)"
proof -
  have "fold (\<lambda>(overlayName, overlay). addOverlay (LeafLayer overlay) overlayName) xs c
        = c @ map (\<lambda>(overlayName, overlay). Entry (LeafLayer overlay) overlayName True) xs"
    for xs :: "(string \<times> 'a leaf) list"
    by (induction xs arbitrary: c) (auto simp: addOverlay_def)
  then show ?thesis by (simp add: add_level_def)
qed

lemma control_updateOverlays:
  "w_layersControl (updateOverlays L w)
   = remove_all (w_overlays w) (w_layersControl w) @ level_entries (w_overlays w) L"
  by (simp add: updateOverlays_def level_entries_def add_level_append split: option.splits)

lemma removeLayer_once:
  "count_list (map entry_id c) (layer_id l) \<le> 1 \<Longrightarrow>
   removeLayer l c = filter (\<lambda>e. entry_id e \<noteq> layer_id l) c"
proof (induction c)
  case Nil
  show ?case by simp
next
  case (Cons e c)
  show ?case
  proof (cases "entry_id e = layer_id l")
    case True
    with Cons.prems have "count_list (map entry_id c) (layer_id l) = 0" by simp
    then have "layer_id l \<notin> set (map entry_id c)" by (metis count_list_0_iff)
    then have "\<forall>e\<in>set c. entry_id e \<noteq> layer_id l" by (metis image_eqI set_map)
    then have "filter (\<lambda>e. entry_id e \<noteq> layer_id l) c = c" by simp
    with True show ?thesis by simp
  next
    case False
    with Cons show ?thesis by simp
  qed
qed

lemma filter_removeLayer:
  "(\<And>e. entry_id e = layer_id l \<Longrightarrow> \<not> P e) \<Longrightarrow> filter P (removeLayer l c) = filter P c"
  by (induction c) auto

lemma count_removeLayer:
  "count_list (map entry_id (removeLayer l c)) x
   = (if x = layer_id l then count_list (map entry_id c) x - 1 else count_list (map entry_id c) x)"
  by (induction c) auto

lemma fold_removeLayer_filter:
  "(\<And>x. x \<in> leaf_id ` set ls \<Longrightarrow>
         count_list (map entry_id c) x \<le> count_list (map leaf_id ls) x) \<Longrightarrow>
   fold (\<lambda>l. removeLayer (LeafLayer l)) ls c = filter (\<lambda>e. entry_id e \<notin> leaf_id ` set ls) c"
proof (induction ls arbitrary: c)
  case Nil
  show ?case by simp
next
  case (Cons l ls)
  let ?c = "removeLayer (LeafLayer l) c"
  have cnt: "count_list (map entry_id ?c) x \<le> count_list (map leaf_id ls) x"
    if "x \<in> leaf_id ` set ls" for x
    using Cons.prems[of x] that by (auto simp: count_removeLayer)
  have "fold (\<lambda>l. removeLayer (LeafLayer l)) (l # ls) c
        = filter (\<lambda>e. entry_id e \<notin> leaf_id ` set ls) ?c"
    using Cons.IH[OF cnt] by simp
  also have "\<dots> = filter (\<lambda>e. entry_id e \<notin> leaf_id ` set (l # ls)) c"
  proof (cases "leaf_id l \<in> leaf_id ` set ls")
    case True
    then have "filter (\<lambda>e. entry_id e \<notin> leaf_id ` set ls) ?c
               = filter (\<lambda>e. entry_id e \<notin> leaf_id ` set ls) c"
      by (intro filter_removeLayer) auto
    with True show ?thesis by (simp add: insert_absorb)
  next
    case False
    then have "count_list (map leaf_id ls) (leaf_id l) = 0" by (simp add: count_list_0_iff)
    with Cons.prems[of "leaf_id l"] have "count_list (map entry_id c) (layer_id (LeafLayer l)) \<le> 1"
      by simp
    then have "?c = filter (\<lambda>e. entry_id e \<noteq> layer_id (LeafLayer l)) c"
      by (rule removeLayer_once)
    then show ?thesis by (auto intro: filter_cong)
  qed
  finally show ?case .
qed

section \<open>The control after \<open>_updateOverlays\<close>\<close>

lemma overlays_updateOverlays [simp]: "w_overlays (updateOverlays L w) = w_overlays w"
  by (simp add: updateOverlays_def Let_def)

lemma level_leaves_subset:
  assumes "obj_get ov L = Some sub"
  shows "map snd (own_entries sub) \<in> set (map (\<lambda>(levelName, sub). map snd (own_entries sub)) (own_entries ov))"
proof -
  from assms have "(L, sub) \<in> set (own_entries ov)" by (simp add: own_entries_iff)
  then show ?thesis by force
qed

lemma count_list_concat_ge: "xs \<in> set xss \<Longrightarrow> count_list xs x \<le> count_list (concat xss) x"
  by (induction xss) (auto simp: count_list_append)

lemma level_entries_ids:
  "map entry_id (level_entries ov L)
   = (case obj_get ov L of None \<Rightarrow> [] | Some sub \<Rightarrow> map leaf_id (map snd (own_entries sub)))"
  by (simp add: level_entries_def entry_id_def comp_def case_prod_unfold split: option.splits)

lemma count_level_entries:
  "count_list (map entry_id (level_entries ov L)) x \<le> count_list (overlay_ids ov) x"
proof (cases "obj_get ov L")
  case None
  then show ?thesis by (simp add: level_entries_ids)
next
  case (Some sub)
  have "count_list (map leaf_id (map snd (own_entries sub))) x
        \<le> count_list (concat (map (map leaf_id) (map (\<lambda>(levelName, sub). map snd (own_entries sub)) (own_entries ov)))) x"
    by (rule count_list_concat_ge) (use level_leaves_subset[OF Some] in \<open>simp only: set_map image_eqI\<close>)
  with Some show ?thesis
    by (simp add: level_entries_ids overlay_ids_def overlay_leaves_def map_concat)
qed

lemma level_entries_known: "e \<in> set (level_entries ov L) \<Longrightarrow> entry_id e \<in> set (overlay_ids ov)"
proof -
  assume "e \<in> set (level_entries ov L)"
  then have "entry_id e \<in> set (map entry_id (level_entries ov L))" by simp
  then have "count_list (map entry_id (level_entries ov L)) (entry_id e) \<noteq> 0"
    by (metis count_list_0_iff)
  with count_level_entries[of ov L "entry_id e"] have "count_list (overlay_ids ov) (entry_id e) \<noteq> 0"
    by simp
  then show ?thesis by (metis count_list_0_iff)
qed

lemma level_entries_overlay: "e \<in> set (level_entries ov L) \<Longrightarrow> entry_overlay e"
  by (auto simp: level_entries_def split: option.splits)

lemma control_sync:
  assumes "registered_within w"
  shows "w_layersControl (updateOverlays L w)
         = filter (\<lambda>e. entry_id e \<notin> set (overlay_ids (w_overlays w))) (w_layersControl w)
           @ level_entries (w_overlays w) L"
proof -
  have "remove_all (w_overlays w) (w_layersControl w)
        = filter (\<lambda>e. entry_id e \<notin> leaf_id ` set (overlay_leaves (w_overlays w))) (w_layersControl w)"
    unfolding remove_all_fold
    by (rule fold_removeLayer_filter) (use assms in \<open>auto simp: registered_within_def overlay_ids_def\<close>)
  then show ?thesis by (simp add: control_updateOverlays overlay_ids_def)
qed

lemma registered_within_updateOverlays:
  assumes "registered_within w"
  shows "registered_within (updateOverlays L w)"
proof -
  have "count_list (map entry_id (w_layersControl (updateOverlays L w))) x
        \<le> count_list (overlay_ids (w_overlays w)) x" if "x \<in> set (overlay_ids (w_overlays w))" for x
  proof -
    have "x \<notin> set (map entry_id (filter (\<lambda>e. entry_id e \<notin> set (overlay_ids (w_overlays w))) (w_layersControl w)))"
      using that by auto
    then have "count_list (map entry_id (filter (\<lambda>e. entry_id e \<notin> set (overlay_ids (w_overlays w))) (w_layersControl w))) x = 0"
      by (metis count_list_0_iff)
    then show ?thesis
      using count_level_entries[of "w_overlays w" L x]
      by (simp add: control_sync[OF assms] count_list_append)
  qed
  then show ?thesis by (simp add: registered_within_def)
qed

section \<open>The construction loops\<close>

lemma advance_fields [simp]:
  "w_webmap (advance cs n w) = w_webmap w"
  "w_map (advance cs n w) = w_map w"
  "w_config (advance cs n w) = w_config w"
  "w_baseLayers (advance cs n w) = w_baseLayers w"
  "w_overlays (advance cs n w) = w_overlays w"
  "w_layersControl (advance cs n w) = w_layersControl w"
  "w_pathGetter (advance cs n w) = w_pathGetter w"
  "w_mainBaseLayer (advance cs n w) = w_mainBaseLayer w"
  "next_id (advance cs n w) = next_id w + n"
  "pg_calls (advance cs n w) = pg_calls w @ cs"
  "the_map (advance cs n w) = the_map w"
  "mapName (advance cs n w) = mapName w"
  "layers0 (advance cs n w) = layers0 w"
  "layers_slice1 (advance cs n w) = layers_slice1 w"
  by (simp_all add: advance_def the_map_def mapName_def layers0_def layers_slice1_def)

lemma advance_advance [simp]: "advance cs' n' (advance cs n w) = advance (cs @ cs') (n + n') w"
  by (simp add: advance_def add.assoc)

lemma advance_nil [simp]: "advance [] 0 w = w"
  by (simp add: advance_def)

lemma visual_advance [simp]:
  "underlay_visual (advance cs n w) = underlay_visual w"
  "base_visual (advance cs n w) = base_visual w"
  "overlay_visual (advance cs n w) = overlay_visual w"
  by (simp_all add: underlay_visual_def base_visual_def overlay_visual_def fun_eq_iff
      split: option.splits LayerSettings.splits)

lemma make_underlay_eq:
  "make_underlay u w
   = (Leaf (next_id w) (underlay_visual w u), advance [(mapName w, u, layers0 w)] 1 w)"
  by (simp add: make_underlay_def underlay_visual_def call_pathGetter_def new_leaf_def advance_def
      split: option.splits LayerSettings.splits)

lemma make_baseLayer_eq:
  "make_baseLayer k w
   = (Leaf (next_id w) (base_visual w k), advance [(mapName w, k, layers0 w)] 1 w)"
  by (simp add: make_baseLayer_def base_visual_def call_pathGetter_def new_leaf_def advance_def
      split: option.splits LayerSettings.splits)

lemma make_overlay_eq:
  "make_overlay k n w
   = (Leaf (next_id w) (overlay_visual w k n), advance [(mapName w, k, Some n)] 1 w)"
  by (simp add: make_overlay_def overlay_visual_def call_pathGetter_def new_leaf_def advance_def
      split: option.splits LayerSettings.splits)

lemma layerGroup_eq: "layerGroup ls w = (Group (next_id w) ls, advance [] 1 w)"
  by (simp add: layerGroup_def advance_def)

lemma underlays_loop_eq:
  "underlays_loop names unders w
   = (unders @ new_underlays w names,
      advance (map (\<lambda>u. (mapName w, u, layers0 w)) names) (length names) w)"
proof (induction names arbitrary: unders w)
  case Nil
  show ?case by (simp add: new_underlays_def)
next
  case (Cons u names)
  have "zip [0..<Suc (length names)] (u # names)
        = (0, u) # map (\<lambda>(i, x). (Suc i, x)) (zip [0..<length names] names)"
    by (simp add: upt_conv_Cons map_Suc_upt[symmetric] zip_map1 del: upt_Suc)
  then have "new_underlays w (u # names)
             = Leaf (next_id w) (underlay_visual w u)
               # new_underlays (advance [(mapName w, u, layers0 w)] 1 w) names"
    by (simp add: new_underlays_def case_prod_unfold comp_def)
  then show ?case by (simp add: make_underlay_eq Cons)
qed

lemma level_calls_advance [simp]: "level_calls (advance cs n w) = level_calls w"
  by (simp add: level_calls_def fun_eq_iff)

lemma getBaseLayers_loop_Cons:
  "getBaseLayers_loop ((k, lvl) # rest) bl w
   = getBaseLayers_loop rest (obj_set bl k (level_group w k lvl))
       (advance (level_calls w k lvl) (length (level_underlays lvl) + 2) w)"
  by (simp add: underlays_loop_eq make_baseLayer_eq layerGroup_eq level_group_def level_calls_def
      level_underlays_def group_addLayer_def split: option.splits)
     (simp add: new_underlays_def)

lemma getBaseLayers_loop_state:
  "snd (getBaseLayers_loop es bl w)
   = advance (concat (map (\<lambda>(k, lvl). level_calls w k lvl) es))
       (sum_list (map (\<lambda>(k, lvl). length (level_underlays lvl) + 2) es)) w"
proof (induction es arbitrary: bl w)
  case Nil
  show ?case by simp
next
  case (Cons e es)
  obtain k lvl where e: "e = (k, lvl)" by (cases e)
  show ?case by (simp only: e getBaseLayers_loop_Cons Cons) simp
qed

lemma set_obj_set: "(k', v') \<in> set (obj_set ob k v) \<Longrightarrow> (k', v') \<in> set ob \<or> (k', v') = (k, v)"
  by (auto simp: obj_set_def split: if_splits)

lemma getBaseLayers_loop_keys:
  "fst ` set (fst (getBaseLayers_loop es bl w)) = fst ` set bl \<union> fst ` set es"
proof (induction es arbitrary: bl w)
  case Nil
  show ?case by simp
next
  case (Cons e es)
  obtain k lvl where e: "e = (k, lvl)" by (cases e)
  show ?case by (simp only: e getBaseLayers_loop_Cons Cons keys_obj_set) auto
qed

lemma getBaseLayers_loop_groups:
  assumes "\<And>k g. (k, g) \<in> set bl \<Longrightarrow> P k g"
    and "\<And>k lvl cs n. P k (level_group (advance cs n w) k lvl)"
    and "(k, g) \<in> set (fst (getBaseLayers_loop es bl w))"
  shows "P k g"
  using assms
proof (induction es arbitrary: bl w)
  case Nil
  then show ?case by simp
next
  case (Cons e es)
  obtain k' lvl where e: "e = (k', lvl)" by (cases e)
  let ?bl = "obj_set bl k' (level_group w k' lvl)"
  let ?w = "advance (level_calls w k' lvl) (length (level_underlays lvl) + 2) w"
  have 1: "P a b" if "(a, b) \<in> set ?bl" for a b
    using set_obj_set[OF that] Cons.prems(1) Cons.prems(2)[of k' "[]" 0 lvl] by auto
  have 2: "P a (level_group (advance cs n ?w) a l)" for a l cs n
    using Cons.prems(2) by simp
  from Cons.prems(3) have "(k, g) \<in> set (fst (getBaseLayers_loop es ?bl ?w))"
    by (simp only: e getBaseLayers_loop_Cons)
  from Cons.IH[OF 1 2 this] show ?case by simp
qed

lemma getBaseLayers_loop_fresh:
  assumes "\<And>k g. (k, g) \<in> set bl \<Longrightarrow> group_id g < next_id w"
    and "(k, g) \<in> set (fst (getBaseLayers_loop es bl w))"
  shows "group_id g < next_id (snd (getBaseLayers_loop es bl w))"
  using assms
proof (induction es arbitrary: bl w)
  case Nil
  then show ?case by simp
next
  case (Cons e es)
  obtain k' lvl where e: "e = (k', lvl)" by (cases e)
  let ?bl = "obj_set bl k' (level_group w k' lvl)"
  let ?w = "advance (level_calls w k' lvl) (length (level_underlays lvl) + 2) w"
  have 1: "group_id b < next_id ?w" if "(a, b) \<in> set ?bl" for a b
    using set_obj_set[OF that] Cons.prems(1)[of a b] by (auto simp: level_group_def)
  from Cons.prems(2) have 2: "(k, g) \<in> set (fst (getBaseLayers_loop es ?bl ?w))"
    by (simp only: e getBaseLayers_loop_Cons)
  from Cons.IH[OF 1 2] show ?case by (simp only: e getBaseLayers_loop_Cons)
qed

lemma configured_advance [simp]:
  "configured (advance cs n w) = configured w" "label_of (advance cs n w) = label_of w"
  by (simp_all add: configured_def label_of_def fun_eq_iff)

lemma obj_get_None_iff: "obj_get ob k = None \<longleftrightarrow> k \<notin> fst ` set ob"
  by (simp add: obj_get_def map_of_eq_None_iff)

lemma overlay_calls_level_advance [simp]: "overlay_calls_level (advance cs n w) = overlay_calls_level w"
  by (simp add: overlay_calls_level_def fun_eq_iff)

lemma overlays_of_level_fail:
  assumes "obj_get ov k \<noteq> None" and "\<exists>n \<in> set names. \<not> configured w n"
  shows "overlays_of_level k names ov w = Inl TypeError"
  using assms
proof (induction names arbitrary: ov w)
  case Nil
  then show ?case by simp
next
  case (Cons n names)
  show ?case
  proof (cases "configured w n")
    case False
    then show ?thesis by (simp add: configured_def make_overlay_eq)
  next
    case True
    then obtain lc where lc: "obj_get (config_layers (w_config w)) n = Some lc"
      by (auto simp: configured_def)
    from Cons.prems(1) obtain sub where sub: "obj_get ov k = Some sub" by auto
    let ?ov = "obj_set ov k (obj_set sub (display lc) (Leaf (next_id w) (overlay_visual w k n)))"
    let ?w = "advance [(mapName w, k, Some n)] 1 w"
    have "obj_get ?ov k \<noteq> None" by (simp add: obj_get_obj_set)
    moreover from Cons.prems(2) True have "\<exists>n \<in> set names. \<not> configured ?w n" by auto
    ultimately have "overlays_of_level k names ?ov ?w = Inl TypeError" by (rule Cons.IH)
    then show ?thesis by (simp add: make_overlay_eq lc sub)
  qed
qed

lemma overlays_of_level_ok:
  assumes "obj_get ov k = Some sub" and "\<forall>n \<in> set names. configured w n"
  shows "\<exists>ov' sub'.
           overlays_of_level k names ov w
             = Inr (ov', advance (overlay_calls_level w k names) (length names) w)
         \<and> level_result w k names ov sub ov' sub'"
  using assms
proof (induction names arbitrary: ov w sub)
  case Nil
  then show ?case by (simp add: overlay_calls_level_def level_result_def)
next
  case (Cons n names)
  from Cons.prems(2) obtain lc where lc: "obj_get (config_layers (w_config w)) n = Some lc"
    by (auto simp: configured_def)
  then have lab: "label_of w n = display lc" by (simp add: label_of_def)
  let ?l = "Leaf (next_id w) (overlay_visual w k n)"
  let ?sub = "obj_set sub (display lc) ?l"
  let ?ov = "obj_set ov k ?sub"
  let ?w = "advance [(mapName w, k, Some n)] 1 w"
  have 1: "obj_get ?ov k = Some ?sub" by (simp add: obj_get_obj_set)
  from Cons.prems(2) have 2: "\<forall>n \<in> set names. configured ?w n" by simp
  from Cons.IH[OF 1 2] obtain ov' sub' where
    r: "overlays_of_level k names ?ov ?w
          = Inr (ov', advance (overlay_calls_level ?w k names) (length names) ?w)"
    and lr: "level_result ?w k names ?ov ?sub ov' sub'"
    by blast
  from lr have keys: "fst ` set ov' = fst ` set ?ov"
    and other: "\<forall>k'. k' \<noteq> k \<longrightarrow> obj_get ov' k' = obj_get ?ov k'"
    and sub': "obj_get ov' k = Some sub'"
    and labs: "fst ` set sub' = fst ` set ?sub \<union> label_of ?w ` set names"
    and leaves: "\<forall>lab l. obj_get sub' lab = Some l \<longrightarrow>
               obj_get ?sub lab = Some l
             \<or> (\<exists>n \<in> set names. lab = label_of ?w n \<and> leaf_visual l = overlay_visual ?w k n
                   \<and> next_id ?w \<le> leaf_id l)"
    unfolding level_result_def by simp_all
  have k_in: "k \<in> fst ` set ov" using Cons.prems(1) obj_get_None_iff[of ov k] by auto
  have a: "overlays_of_level k (n # names) ov w
           = Inr (ov', advance (overlay_calls_level w k (n # names)) (length (n # names)) w)"
    using r by (simp add: make_overlay_eq lc Cons.prems(1) overlay_calls_level_def)
  have b: "fst ` set ov' = fst ` set ov"
    using keys k_in by (simp add: keys_obj_set insert_absorb)
  have c: "\<forall>k'. k' \<noteq> k \<longrightarrow> obj_get ov' k' = obj_get ov k'"
    using other by (simp add: obj_get_obj_set)
  have d: "fst ` set sub' = fst ` set sub \<union> label_of w ` set (n # names)"
    using labs by (auto simp: keys_obj_set lab)
  have e: "obj_get sub lab = Some l
             \<or> (\<exists>m \<in> set (n # names). lab = label_of w m \<and> leaf_visual l = overlay_visual w k m
                   \<and> next_id w \<le> leaf_id l)" if "obj_get sub' lab = Some l" for lab l
  proof -
    from leaves that consider "obj_get ?sub lab = Some l"
      | "\<exists>m \<in> set names. lab = label_of ?w m \<and> leaf_visual l = overlay_visual ?w k m
                   \<and> next_id ?w \<le> leaf_id l" by blast
    then show ?thesis
    proof cases
      case 1
      then show ?thesis by (auto simp: obj_get_obj_set lab split: if_splits)
    next
      case 2
      then show ?thesis by auto
    qed
  qed
  have "level_result w k (n # names) ov sub ov' sub'"
    unfolding level_result_def
  proof (intro conjI allI impI)
    show "fst ` set ov' = fst ` set ov" by (rule b)
    show "obj_get ov' k = Some sub'" by (rule sub')
    show "fst ` set sub' = fst ` set sub \<union> label_of w ` set (n # names)" by (rule d)
    show "obj_get ov' k' = obj_get ov k'" if "k' \<noteq> k" for k' using c that by simp
    show "obj_get sub lab = Some l
             \<or> (\<exists>m \<in> set (n # names). lab = label_of w m \<and> leaf_visual l = overlay_visual w k m
                   \<and> next_id w \<le> leaf_id l)" if "obj_get sub' lab = Some l" for lab l
      using that by (rule e)
  qed
  with a show ?case by (intro exI conjI)
qed

lemma overlay_calls_advance [simp]: "overlay_calls (advance cs n w) = overlay_calls w"
  by (simp add: overlay_calls_def fun_eq_iff)

lemma level_built_advance: "level_built (advance cs n w) k sub \<Longrightarrow> level_built w k sub"
  by (fastforce simp: level_built_def)

lemma level_result_built:
  assumes "level_result w k (layers_slice1 w) ov [] ov' sub'"
  shows "level_built w k sub'"
  using assms by (simp add: level_result_def level_built_def obj_get_def)

lemma getOverlays_loop_ok:
  assumes "\<forall>n \<in> set (layers_slice1 w). configured w n"
  shows "\<exists>ov'. getOverlays_loop ks ov w
                  = Inr (ov', advance (overlay_calls w ks) (length ks * length (layers_slice1 w)) w)
               \<and> loop_result w ks ov ov'"
  using assms
proof (induction ks arbitrary: ov w)
  case Nil
  show ?case by (simp add: overlay_calls_def loop_result_def)
next
  case (Cons k ks)
  let ?ov1 = "obj_set ov k []"
  let ?names = "layers_slice1 w"
  let ?w2 = "advance (overlay_calls_level w k ?names) (length ?names) w"
  have 1: "obj_get ?ov1 k = Some []" by (simp add: obj_get_obj_set)
  from overlays_of_level_ok[OF 1 Cons.prems] obtain ov2 sub2 where
    r2: "overlays_of_level k ?names ?ov1 w = Inr (ov2, ?w2)"
    and lr: "level_result w k ?names ?ov1 [] ov2 sub2"
    by blast
  from lr have keys2: "fst ` set ov2 = fst ` set ?ov1"
    and other2: "\<forall>k'. k' \<noteq> k \<longrightarrow> obj_get ov2 k' = obj_get ?ov1 k'"
    and sub2: "obj_get ov2 k = Some sub2"
    unfolding level_result_def by simp_all
  have built2: "level_built w k sub2" using lr by (rule level_result_built)
  from Cons.prems have 3: "\<forall>n \<in> set (layers_slice1 ?w2). configured ?w2 n" by simp
  from Cons.IH[OF 3, of ov2] obtain ov' where
    r: "getOverlays_loop ks ov2 ?w2
          = Inr (ov', advance (overlay_calls ?w2 ks) (length ks * length (layers_slice1 ?w2)) ?w2)"
    and res: "loop_result ?w2 ks ov2 ov'"
    by blast
  from res have keys: "fst ` set ov' = fst ` set ov2 \<union> set ks"
    and subs: "\<forall>k' sub. obj_get ov' k' = Some sub \<longrightarrow>
           (k' \<notin> set ks \<and> obj_get ov2 k' = Some sub) \<or> (k' \<in> set ks \<and> level_built ?w2 k' sub)"
    unfolding loop_result_def by simp_all
  have a: "getOverlays_loop (k # ks) ov w
           = Inr (ov', advance (overlay_calls w (k # ks)) (length (k # ks) * length ?names) w)"
    using r r2 by (simp add: overlay_calls_def add.commute)
  have "loop_result w (k # ks) ov ov'"
    unfolding loop_result_def
  proof (intro conjI allI impI)
    show "fst ` set ov' = fst ` set ov \<union> set (k # ks)"
      using keys keys2 by (simp add: keys_obj_set)
    show "(k' \<notin> set (k # ks) \<and> obj_get ov k' = Some sub)
          \<or> (k' \<in> set (k # ks) \<and> level_built w k' sub)" if g: "obj_get ov' k' = Some sub" for k' sub
    proof -
      from subs g consider "k' \<notin> set ks" "obj_get ov2 k' = Some sub"
        | "k' \<in> set ks" "level_built ?w2 k' sub" by blast
      then show ?thesis
      proof cases
        case 1
        show ?thesis
        proof (cases "k' = k")
          case True
          with 1 sub2 built2 show ?thesis by simp
        next
          case False
          with 1 other2 show ?thesis by (simp add: obj_get_obj_set)
        qed
      next
        case 2
        then show ?thesis using level_built_advance by auto
      qed
    qed
  qed
  with a show ?case by (intro exI conjI)
qed

lemma getOverlays_loop_fail:
  assumes "ks \<noteq> []" and "\<exists>n \<in> set (layers_slice1 w). \<not> configured w n"
  shows "getOverlays_loop ks ov w = Inl TypeError"
proof -
  from assms(1) obtain k rest where ks: "ks = k # rest" by (cases ks) auto
  have "obj_get (obj_set ov k []) k \<noteq> None" by (simp add: obj_get_obj_set)
  then have "overlays_of_level k (layers_slice1 w) (obj_set ov k []) w = Inl TypeError"
    using assms(2) by (rule overlays_of_level_fail)
  then show ?thesis by (simp add: ks)
qed

section \<open>\<open>initialize\<close> step by step\<close>

lemma same_env_funs:
  assumes "same_env w w'"
  shows "the_map w' = the_map w" "mapName w' = mapName w" "layers0 w' = layers0 w"
    "layers_slice1 w' = layers_slice1 w" "configured w' = configured w" "label_of w' = label_of w"
    "underlay_visual w' = underlay_visual w" "base_visual w' = base_visual w"
    "overlay_visual w' = overlay_visual w" "level_calls w' = level_calls w"
    "base_calls w' = base_calls w" "overlay_calls w' = overlay_calls w"
  using assms
  by (simp_all add: same_env_def the_map_def mapName_def layers0_def layers_slice1_def
      configured_def label_of_def underlay_visual_def base_visual_def overlay_visual_def
      level_calls_def base_calls_def overlay_calls_def overlay_calls_level_def fun_eq_iff
      split: option.splits LayerSettings.splits)

lemma getBaseLayersForMap_state:
  "snd (getBaseLayersForMap w) = advance (base_calls w) (base_count w) w"
  by (simp add: getBaseLayersForMap_def getBaseLayers_loop_state base_calls_def base_count_def)

lemma addBaseLayersToControl_eq:
  "addBaseLayersToControl w
   = w\<lparr>w_layersControl := w_layersControl w @ base_entries_of (w_baseLayers w)\<rparr>"
proof -
  have "fold (\<lambda>(layerName, layer). addBaseLayer (GroupLayer layer) layerName) xs c
        = c @ map (\<lambda>(layerName, layer). Entry (GroupLayer layer) layerName False) xs"
    for xs :: "(string \<times> 'a group) list" and c
    by (induction xs arbitrary: c) (auto simp: addBaseLayer_def)
  then show ?thesis by (simp add: addBaseLayersToControl_def base_entries_of_def)
qed

lemma initialize_eq:
  "initialize w =
     (case getOverlays (before_overlays w) of
        Inl e \<Rightarrow> Inl e
      | Inr (ov, we) \<Rightarrow> Inr (after_overlays ov we))"
proof -
  let ?wb = "w\<lparr>w_webmap := init_view w\<rparr>"
  have env: "same_env w ?wb" by (simp add: same_env_def)
  obtain bl wc where g: "getBaseLayersForMap ?wb = (bl, wc)" by (cases "getBaseLayersForMap ?wb")
  then have wc: "wc = advance (base_calls w) (base_count w) ?wb"
    using getBaseLayersForMap_state[of ?wb] same_env_funs[OF env]
    by (simp add: base_count_def)
  have wb: "(w\<lparr>w_webmap := setMaxBounds (bounds (the_map w)) (w_webmap w)\<rparr>)
              \<lparr>w_webmap := fitBounds (bounds (the_map w)) (setMaxBounds (bounds (the_map w)) (w_webmap w))\<rparr>
            = ?wb"
    by (simp add: init_view_def)
  have tm: "the_map (w\<lparr>w_webmap := v\<rparr>) = the_map w" for v by (simp add: the_map_def)
  show ?thesis
    unfolding initialize_def Let_def after_overlays_def before_overlays_def
    by (simp add: tm wb g wc addBaseLayersToControl_eq split: sum.splits prod.splits)
qed

section \<open>Consistency of the control with \<open>Overlays\<close>\<close>

lemma overlay_ids_iff:
  "x \<in> set (overlay_ids ov)
   \<longleftrightarrow> (\<exists>k sub lab l. obj_get ov k = Some sub \<and> obj_get sub lab = Some l \<and> leaf_id l = x)"
proof
  assume "x \<in> set (overlay_ids ov)"
  then obtain k sub lab l where "(k, sub) \<in> set (own_entries ov)" "(lab, l) \<in> set (own_entries sub)"
    "leaf_id l = x"
    by (auto simp: overlay_ids_def overlay_leaves_def)
  then show "\<exists>k sub lab l. obj_get ov k = Some sub \<and> obj_get sub lab = Some l \<and> leaf_id l = x"
    by (auto simp: own_entries_iff)
next
  assume "\<exists>k sub lab l. obj_get ov k = Some sub \<and> obj_get sub lab = Some l \<and> leaf_id l = x"
  then obtain k sub lab l where "(k, sub) \<in> set (own_entries ov)" "(lab, l) \<in> set (own_entries sub)"
    "leaf_id l = x"
    by (auto simp: own_entries_iff)
  then show "x \<in> set (overlay_ids ov)"
    by (force simp: overlay_ids_def overlay_leaves_def)
qed

lemma base_entries_removeLayer:
  assumes "\<And>e. e \<in> set c \<Longrightarrow> entry_id e = layer_id l \<Longrightarrow> entry_overlay e"
  shows "base_entries (removeLayer l c) = base_entries c"
  using assms by (induction c) (auto simp: base_entries_def)

lemma set_removeLayer: "set (removeLayer l c) \<subseteq> set c"
  by (induction c) auto

lemma base_entries_fold_remove:
  assumes "\<And>e. e \<in> set c \<Longrightarrow> entry_id e \<in> leaf_id ` set ls \<Longrightarrow> entry_overlay e"
  shows "base_entries (fold (\<lambda>l. removeLayer (LeafLayer l)) ls c) = base_entries c"
  using assms
proof (induction ls arbitrary: c)
  case Nil
  show ?case by simp
next
  case (Cons l ls)
  have "base_entries (removeLayer (LeafLayer l) c) = base_entries c"
    by (rule base_entries_removeLayer) (use Cons.prems in auto)
  moreover have "base_entries (fold (\<lambda>l. removeLayer (LeafLayer l)) ls (removeLayer (LeafLayer l) c))
                 = base_entries (removeLayer (LeafLayer l) c)"
    by (rule Cons.IH) (use Cons.prems set_removeLayer in fastforce)
  ultimately show ?case by simp
qed

lemma base_entries_updateOverlays:
  assumes "bases_apart w"
  shows "base_entries (w_layersControl (updateOverlays L w)) = base_entries (w_layersControl w)"
proof -
  have "base_entries (remove_all (w_overlays w) (w_layersControl w)) = base_entries (w_layersControl w)"
    unfolding remove_all_fold
    by (rule base_entries_fold_remove)
       (use assms in \<open>auto simp: bases_apart_def overlay_ids_def\<close>)
  moreover have "base_entries (level_entries (w_overlays w) L) = []"
    by (auto simp: base_entries_def filter_empty_conv dest: level_entries_overlay)
  ultimately show ?thesis by (simp add: control_updateOverlays base_entries_def)
qed

lemma overlay_entries_filter_known:
  assumes "overlays_known w"
  shows "overlay_entries (filter (\<lambda>e. entry_id e \<notin> set (overlay_ids (w_overlays w))) (w_layersControl w)) = []"
  using assms by (auto simp: overlays_known_def overlay_entries_def filter_empty_conv)

lemma overlay_entries_level_entries: "overlay_entries (level_entries ov L) = level_entries ov L"
  by (simp add: overlay_entries_def level_entries_overlay)

lemma overlay_entries_updateOverlays:
  assumes "registered_within w" and "overlays_known w"
  shows "overlay_entries (w_layersControl (updateOverlays L w)) = level_entries (w_overlays w) L"
  using overlay_entries_filter_known[OF assms(2)] overlay_entries_level_entries[of "w_overlays w" L]
  by (simp add: control_sync[OF assms(1)] overlay_entries_def)

lemma overlays_known_updateOverlays:
  assumes "registered_within w" and "overlays_known w"
  shows "overlays_known (updateOverlays L w)"
proof -
  have "entry_id e \<in> set (overlay_ids (w_overlays w))"
    if "e \<in> set (w_layersControl (updateOverlays L w))" "entry_overlay e" for e
  proof -
    from that have "e \<in> set (overlay_entries (w_layersControl (updateOverlays L w)))"
      by (simp add: overlay_entries_def)
    then have "e \<in> set (level_entries (w_overlays w) L)"
      by (simp only: overlay_entries_updateOverlays[OF assms])
    then show ?thesis by (rule level_entries_known)
  qed
  then show ?thesis by (simp add: overlays_known_def)
qed

lemma bases_apart_updateOverlays:
  assumes "bases_apart w"
  shows "bases_apart (updateOverlays L w)"
proof -
  have "entry_id e \<notin> set (overlay_ids (w_overlays w))"
    if "e \<in> set (w_layersControl (updateOverlays L w))" "\<not> entry_overlay e" for e
  proof -
    from that have "e \<in> set (base_entries (w_layersControl (updateOverlays L w)))"
      by (simp add: base_entries_def)
    then have "e \<in> set (base_entries (w_layersControl w))"
      by (simp only: base_entries_updateOverlays[OF assms])
    then have "e \<in> set (w_layersControl w)"
      by (simp add: base_entries_def)
    with assms that(2) show ?thesis by (simp add: bases_apart_def)
  qed
  then show ?thesis by (simp add: bases_apart_def)
qed

lemma consistent_updateOverlays: "consistent w \<Longrightarrow> consistent (updateOverlays L w)"
  by (simp add: consistent_def registered_within_updateOverlays overlays_known_updateOverlays
      bases_apart_updateOverlays)

lemma consistent_cong:
  "w_overlays w' = w_overlays w \<Longrightarrow> w_layersControl w' = w_layersControl w \<Longrightarrow>
   consistent w' = consistent w"
  by (simp add: consistent_def registered_within_def overlays_known_def bases_apart_def)

lemma before_overlays_fields:
  "w_map (before_overlays w) = w_map w"
  "w_config (before_overlays w) = w_config w"
  "w_pathGetter (before_overlays w) = w_pathGetter w"
  "w_baseLayers (before_overlays w) = fst (getBaseLayersForMap (w\<lparr>w_webmap := init_view w\<rparr>))"
  "w_layersControl (before_overlays w)
     = w_layersControl w @ base_entries_of (w_baseLayers (before_overlays w))"
  "next_id (before_overlays w) = next_id w + base_count w"
  "pg_calls (before_overlays w) = pg_calls w @ base_calls w"
  "w_webmap (before_overlays w) = init_view w"
  "w_overlays (before_overlays w) = w_overlays w"
  by (simp_all add: before_overlays_def Let_def)

lemma same_env_before_overlays: "same_env w (before_overlays w)"
  by (simp add: same_env_def before_overlays_fields)

lemma baseLayers_fresh:
  assumes "(k, g) \<in> set (w_baseLayers (before_overlays w))"
  shows "group_id g < next_id (before_overlays w)"
proof -
  let ?wb = "w\<lparr>w_webmap := init_view w\<rparr>"
  have env: "same_env w ?wb" by (simp add: same_env_def)
  from assms have "(k, g) \<in> set (fst (getBaseLayers_loop (own_entries (levels (the_map ?wb))) [] ?wb))"
    by (simp add: before_overlays_fields getBaseLayersForMap_def)
  then have "group_id g < next_id (snd (getBaseLayers_loop (own_entries (levels (the_map ?wb))) [] ?wb))"
    by (intro getBaseLayers_loop_fresh[where bl = "[]"]) auto
  then have "group_id g < next_id (advance (base_calls ?wb) (base_count ?wb) ?wb)"
    using getBaseLayersForMap_state[of ?wb] by (simp add: getBaseLayersForMap_def)
  then show ?thesis
    using same_env_funs[OF env] by (simp add: before_overlays_fields base_count_def)
qed

lemma level_names_env: "same_env w w' \<Longrightarrow> level_names w' = level_names w"
  by (simp add: level_names_def same_env_funs)

lemma level_names_Nil: "level_names w = [] \<longleftrightarrow> levels (the_map w) = []"
proof -
  have "level_names w = [] \<longleftrightarrow> set (level_names w) = {}" by simp
  also have "\<dots> \<longleftrightarrow> levels (the_map w) = []" by (simp add: level_names_def set_own_keys)
  finally show ?thesis .
qed

lemma getOverlays_fail:
  assumes "\<not> overlays_configured w"
  shows "getOverlays w = Inl TypeError"
proof -
  from assms have "level_names w \<noteq> []" by (simp add: overlays_configured_def level_names_Nil)
  moreover from assms have "\<exists>n \<in> set (layers_slice1 w). \<not> configured w n"
    by (simp add: overlays_configured_def)
  ultimately show ?thesis
    unfolding getOverlays_def level_names_def[symmetric] by (rule getOverlays_loop_fail)
qed

lemma getOverlays_ok:
  assumes "overlays_configured w"
  shows "\<exists>ov. getOverlays w
                 = Inr (ov, advance (overlay_calls w (level_names w))
                              (length (level_names w) * length (layers_slice1 w)) w)
             \<and> loop_result w (level_names w) [] ov"
proof (cases "levels (the_map w) = []")
  case True
  then have "level_names w = []" by (simp add: level_names_Nil)
  then show ?thesis
    by (simp add: getOverlays_def level_names_def[symmetric] overlay_calls_def loop_result_def)
next
  case False
  with assms have "\<forall>n \<in> set (layers_slice1 w). configured w n"
    by (simp add: overlays_configured_def)
  then show ?thesis
    unfolding getOverlays_def level_names_def[symmetric] by (rule getOverlays_loop_ok)
qed

lemma getOverlays_Inr:
  assumes "getOverlays w = Inr (ov, we)"
  shows "overlays_configured w"
    and "we = advance (overlay_calls w (level_names w))
                (length (level_names w) * length (layers_slice1 w)) w"
    and "loop_result w (level_names w) [] ov"
proof -
  show c: "overlays_configured w"
    using assms getOverlays_fail[of w] by (cases "overlays_configured w") auto
  from getOverlays_ok[OF c] assms
  show "we = advance (overlay_calls w (level_names w))
                (length (level_names w) * length (layers_slice1 w)) w"
    and "loop_result w (level_names w) [] ov"
    by auto
qed

lemma findMain_loop_map_of:
  "findMain_loop xs m = (case map_of xs m of None \<Rightarrow> None | Some g \<Rightarrow> Some (g, m))"
  by (induction xs) auto

lemma map_of_own_entries: "map_of (own_entries ob) k = obj_get ob k"
proof (cases "obj_get ob k")
  case None
  then have "k \<notin> fst ` set (own_entries ob)"
    by (metis map_fst_own_entries set_map set_own_keys obj_get_None_iff)
  with None show ?thesis by (simp add: map_of_eq_None_iff)
next
  case (Some v)
  then have "(k, v) \<in> set (own_entries ob)" by (simp add: own_entries_iff)
  moreover have "distinct (map fst (own_entries ob))"
    by (simp add: map_fst_own_entries distinct_own_keys)
  ultimately show ?thesis using Some by simp
qed

lemma findMainBaseLayer_eq:
  "findMainBaseLayer w
   = (case obj_get (w_baseLayers w) (mainLevel (the_map w)) of
        None \<Rightarrow> None
      | Some g \<Rightarrow> Some (g, mainLevel (the_map w)))"
  by (simp add: findMainBaseLayer_def findMain_loop_map_of map_of_own_entries)

lemma after_overlays_fields:
  "w_map (after_overlays ov we) = w_map we"
  "w_config (after_overlays ov we) = w_config we"
  "w_pathGetter (after_overlays ov we) = w_pathGetter we"
  "w_baseLayers (after_overlays ov we) = w_baseLayers we"
  "w_overlays (after_overlays ov we) = ov"
  "next_id (after_overlays ov we) = next_id we"
  "pg_calls (after_overlays ov we) = pg_calls we"
  "w_mainBaseLayer (after_overlays ov we)
     = (case main_group we of None \<Rightarrow> None | Some g \<Rightarrow> Some (g, mainLevel (the_map we)))"
  "w_layersControl (after_overlays ov we)
     = (case main_group we of
          None \<Rightarrow> w_layersControl we
        | Some g \<Rightarrow> remove_all ov (w_layersControl we) @ level_entries ov (mainLevel (the_map we)))"
  "view_layers (w_webmap (after_overlays ov we))
     = (case main_group we of
          None \<Rightarrow> view_layers (w_webmap we)
        | Some g \<Rightarrow> view_layers (w_webmap we) @ [GroupLayer g])"
  by (simp_all add: after_overlays_def Let_def findMainBaseLayer_eq main_group_def the_map_def
      updateOverlays_def level_entries_def add_level_append addLayer_def on_baselayerchange_def
      split: option.splits)

lemma base_entries_of_props:
  assumes "e \<in> set (base_entries_of bl)"
  shows "\<not> entry_overlay e" and "\<exists>k g. (k, g) \<in> set bl \<and> entry_id e = group_id g"
proof -
  from assms obtain k g where kg: "(k, g) \<in> set (own_entries bl)" and e: "e = Entry (GroupLayer g) k False"
    by (auto simp: base_entries_of_def)
  from e show "\<not> entry_overlay e" by simp
  from kg have "obj_get bl k = Some g" by (simp add: own_entries_iff)
  then have "(k, g) \<in> set bl" by (simp add: obj_get_def map_of_SomeD)
  with e show "\<exists>k g. (k, g) \<in> set bl \<and> entry_id e = group_id g"
    by (auto simp: entry_id_def)
qed

lemma built_overlay_ids:
  assumes "loop_result w ks [] ov" and "x \<in> set (overlay_ids ov)"
  shows "next_id w \<le> x"
proof -
  from assms(2) obtain k sub lab l where
    "obj_get ov k = Some sub" "obj_get sub lab = Some l" "leaf_id l = x"
    by (auto simp: overlay_ids_iff)
  moreover from this assms(1) have "level_built w k sub"
    by (auto simp: loop_result_def obj_get_def)
  ultimately show ?thesis by (auto simp: level_built_def)
qed

lemma consistent_fresh:
  assumes "\<And>e. e \<in> set (w_layersControl w) \<Longrightarrow> \<not> entry_overlay e \<and> entry_id e < n"
    and "\<And>x. x \<in> set (overlay_ids (w_overlays w)) \<Longrightarrow> n \<le> x"
  shows "consistent w"
proof -
  have "count_list (map entry_id (w_layersControl w)) x = 0" if "x \<in> set (overlay_ids (w_overlays w))" for x
  proof -
    from assms(2)[OF that] assms(1) have "x \<notin> set (map entry_id (w_layersControl w))" by fastforce
    then show ?thesis by (metis count_list_0_iff)
  qed
  then have "registered_within w" by (simp add: registered_within_def)
  moreover have "overlays_known w" using assms(1) by (auto simp: overlays_known_def)
  moreover have "bases_apart w" using assms by (fastforce simp: bases_apart_def)
  ultimately show ?thesis by (simp add: consistent_def)
qed

lemma before_sync_consistent:
  assumes "getOverlays (before_overlays w) = Inr (ov, we)"
    and "\<And>e. e \<in> set (w_layersControl w) \<Longrightarrow> \<not> entry_overlay e \<and> entry_id e < next_id w"
  shows "consistent (we\<lparr>w_overlays := ov\<rparr>)"
proof -
  let ?wd = "before_overlays w"
  note r = getOverlays_Inr[OF assms(1)]
  let ?wg = "we\<lparr>w_overlays := ov\<rparr>"
  have ctl: "w_layersControl ?wg = w_layersControl w @ base_entries_of (w_baseLayers ?wd)"
    by (simp add: r(2) before_overlays_fields)
  have 1: "\<not> entry_overlay e \<and> entry_id e < next_id ?wd" if "e \<in> set (w_layersControl ?wg)" for e
  proof -
    from that ctl consider "e \<in> set (w_layersControl w)" | "e \<in> set (base_entries_of (w_baseLayers ?wd))"
      by auto
    then show ?thesis
    proof cases
      case 1
      with assms(2)[of e] show ?thesis by (simp add: before_overlays_fields)
    next
      case 2
      from base_entries_of_props[OF 2] baseLayers_fresh[of _ _ w] show ?thesis by auto
    qed
  qed
  have 2: "next_id ?wd \<le> x" if "x \<in> set (overlay_ids (w_overlays ?wg))" for x
    using built_overlay_ids[OF r(3)] that by simp
  show ?thesis using 1 2 by (rule consistent_fresh)
qed

lemma control_after_overlays:
  "w_layersControl (after_overlays ov we)
   = (case main_group we of
        None \<Rightarrow> w_layersControl (we\<lparr>w_overlays := ov\<rparr>)
      | Some g \<Rightarrow> w_layersControl (updateOverlays (mainLevel (the_map we)) (we\<lparr>w_overlays := ov\<rparr>)))"
  by (simp add: after_overlays_fields control_updateOverlays split: option.splits)

lemma initialize_consistent:
  assumes "initialize w = Inr w'"
    and "\<And>e. e \<in> set (w_layersControl w) \<Longrightarrow> \<not> entry_overlay e \<and> entry_id e < next_id w"
  shows "consistent w'"
proof -
  from assms(1) obtain ov we where g: "getOverlays (before_overlays w) = Inr (ov, we)"
    and w': "w' = after_overlays ov we"
    by (auto simp: initialize_eq split: sum.splits)
  let ?wg = "we\<lparr>w_overlays := ov\<rparr>"
  have cg: "consistent ?wg" using g assms(2) by (rule before_sync_consistent)
  show ?thesis
  proof (cases "main_group we")
    case None
    then have "consistent w' = consistent ?wg"
      unfolding w' by (intro consistent_cong) (simp_all add: after_overlays_fields)
    with cg show ?thesis by simp
  next
    case (Some grp)
    then have "consistent w' = consistent (updateOverlays (mainLevel (the_map we)) ?wg)"
      unfolding w'
      by (intro consistent_cong) (simp_all add: after_overlays_fields control_updateOverlays)
    with consistent_updateOverlays[OF cg] show ?thesis by simp
  qed
qed

lemma base_entries_base_entries_of: "base_entries (base_entries_of bl) = base_entries_of bl"
  by (simp add: base_entries_def base_entries_of_props(1))

lemma initialize_base_entries:
  assumes "initialize w = Inr w'" and "w_layersControl w = []"
  shows "base_entries (w_layersControl w') = base_entries_of (w_baseLayers w')"
proof -
  from assms(1) obtain ov we where g: "getOverlays (before_overlays w) = Inr (ov, we)"
    and w': "w' = after_overlays ov we"
    by (auto simp: initialize_eq split: sum.splits)
  note r = getOverlays_Inr[OF g]
  let ?wg = "we\<lparr>w_overlays := ov\<rparr>"
  have cg: "consistent ?wg" using g by (rule before_sync_consistent) (simp add: assms(2))
  have bl: "w_baseLayers w' = w_baseLayers (before_overlays w)"
    by (simp add: w' after_overlays_fields r(2))
  have ctl: "w_layersControl ?wg = base_entries_of (w_baseLayers (before_overlays w))"
    by (simp add: r(2) before_overlays_fields assms(2))
  have "base_entries (w_layersControl w') = base_entries (w_layersControl ?wg)"
  proof (cases "main_group we")
    case None
    then show ?thesis by (simp add: w' control_after_overlays)
  next
    case (Some grp)
    from cg have "bases_apart ?wg" by (simp add: consistent_def)
    from base_entries_updateOverlays[OF this, of "mainLevel (the_map we)"] Some
    show ?thesis by (simp add: w' control_after_overlays)
  qed
  then show ?thesis by (simp add: ctl bl base_entries_base_entries_of)
qed

lemma reachable_consistent: "reachable w \<Longrightarrow> consistent w"
proof (induction rule: reachable.induct)
  case (initialized gf gi params w)
  then show ?case by (rule initialize_consistent) (simp add: Webmap_new_def)
next
  case (changed w name)
  from changed.IH show ?case by (rule consistent_updateOverlays)
qed

lemma reachable_base_entries:
  "reachable w \<Longrightarrow> base_entries (w_layersControl w) = base_entries_of (w_baseLayers w)"
proof (induction rule: reachable.induct)
  case (initialized gf gi params w)
  then show ?case by (rule initialize_base_entries) (simp add: Webmap_new_def)
next
  case (changed w name)
  from changed.hyps have "bases_apart w" using reachable_consistent by (auto simp: consistent_def)
  from base_entries_updateOverlays[OF this, of name] changed.IH
  show ?case by (simp add: updateOverlays_def Let_def)
qed

section \<open>Synchronisation of the overlays\<close>

lemma station_initialize: "initialize station_new = Inr station_state"
proof -
  have "case initialize station_new of Inl e \<Rightarrow> False | Inr w \<Rightarrow> True" by code_simp
  then show ?thesis by (simp add: station_state_def split: sum.splits)
qed

lemma station_reachable: "reachable station_state"
  using station_initialize unfolding station_new_def by (rule reachable.initialized)

lemma station_level_L2:
  "level_entries (w_overlays station_state) ''L2''
   = [Entry (LeafLayer (Leaf 7 (TileLayer ''station/L2/electrical/{z}/{x}/{y}.png'' None 0 4 4 1024)))
        ''Electrical'' True,
      Entry (LeafLayer (Leaf 8 (TileLayer ''station/L2/plumbing/{z}/{x}/{y}.png'' None 0 4 4 1024)))
        ''Plumbing'' True]"
  by code_simp




lemma station_registered_within: "registered_within station_state"
  by code_simp



lemma station_no_L9: "obj_get (w_overlays station_state) ''L9'' = None"
  by code_simp

lemma station_overlay_entries:
  "overlay_entries (w_layersControl station_state)
   = [Entry (LeafLayer (Leaf 5 (TileLayer ''station/L1/electrical/{z}/{x}/{y}.png'' None 0 4 4 1024)))
        ''Electrical'' True,
      Entry (LeafLayer (Leaf 6 (TileLayer ''station/L1/plumbing/{z}/{x}/{y}.png'' None 0 4 4 1024)))
        ''Plumbing'' True]"
  by code_simp


text \<open>
  Claim C9. \<open>_updateOverlays\<close> leaves the base-layer entries of the control as they are,
  layer, label and order: for every level name and every state in which no base-layer
  entry registers an overlay of \<open>Overlays\<close>. Every state of an initialized Webmap is such
  a state (\<open>reachable_consistent\<close>): the base layers are layer groups constructed before
  the overlays, and the base-layer entries are those \<open>_addBaseLayersToControl\<close> has
  registered, one per level (\<open>reachable_base_entries\<close>).
\<close>

theorem updateOverlays_keeps_base_entries:
  assumes "bases_apart w"
  shows "base_entries (w_layersControl (updateOverlays L w)) = base_entries (w_layersControl w)"
proof -
  have kept: "base_entries (remove_all (w_overlays w) (w_layersControl w))
              = base_entries (w_layersControl w)"
    unfolding remove_all_fold
  proof (rule base_entries_fold_remove)
    fix e
    assume "e \<in> set (w_layersControl w)" "entry_id e \<in> leaf_id ` set (overlay_leaves (w_overlays w))"
    with assms show "entry_overlay e" by (auto simp: bases_apart_def overlay_ids_def)
  qed
  have added: "base_entries (level_entries (w_overlays w) L) = []"
    by (auto simp: base_entries_def filter_empty_conv dest: level_entries_overlay)
  have "base_entries (w_layersControl (updateOverlays L w))
        = base_entries (remove_all (w_overlays w) (w_layersControl w))
          @ base_entries (level_entries (w_overlays w) L)"
    by (simp add: control_updateOverlays base_entries_def)
  with kept added show ?thesis by simp
qed

lemma station_bases_apart: "bases_apart station_state"
  by code_simp

lemma station_base_names: "map entry_name (base_entries (w_layersControl station_state)) = [''L1'', ''L2'']"
  by code_simp

theorem updateOverlays_keeps_base_entries_witness:
  "bases_apart station_state
   \<and> map entry_name (base_entries (w_layersControl (updateOverlays ''L2'' station_state))) = [''L1'', ''L2'']"
  using updateOverlays_keeps_base_entries[OF station_bases_apart, of "''L2''"] station_bases_apart station_base_names
  by simp

section \<open>The layer maps built by \<open>initialize\<close>\<close>

lemma map_fst_replace:
  "map fst (map (\<lambda>(k', v'). if k' = k then (k', v) else (k', v')) ob) = map fst ob"
  by (induction ob) (auto split: prod.splits)

lemma distinct_obj_set:
  assumes "distinct (map fst ob)"
  shows "distinct (map fst (obj_set ob k v))"
proof (cases "k \<in> fst ` set ob")
  case True
  with assms show ?thesis by (simp only: obj_set_def if_True map_fst_replace)
next
  case False
  with assms show ?thesis by (simp add: obj_set_def)
qed

lemma getBaseLayers_loop_distinct:
  "distinct (map fst bl) \<Longrightarrow> distinct (map fst (fst (getBaseLayers_loop es bl w)))"
proof (induction es arbitrary: bl w)
  case Nil
  then show ?case by simp
next
  case (Cons e es)
  obtain k lvl where e: "e = (k, lvl)" by (cases e)
  from Cons.prems have "distinct (map fst (obj_set bl k (level_group w k lvl)))"
    by (rule distinct_obj_set)
  then show ?case unfolding e getBaseLayers_loop_Cons by (rule Cons.IH)
qed

lemma overlays_of_level_distinct:
  "overlays_of_level k names ov w = Inr (ov', w') \<Longrightarrow> distinct (map fst ov) \<Longrightarrow>
   distinct (map fst ov')"
proof (induction names arbitrary: ov w)
  case Nil
  then show ?case by simp
next
  case (Cons n names)
  from Cons.prems(1) obtain lc :: LayerConfig and sub where
    "overlays_of_level k names
       (obj_set ov k (obj_set sub (display lc) (Leaf (next_id w) (overlay_visual w k n))))
       (advance [(mapName w, k, Some n)] (Suc 0) w) = Inr (ov', w')"
    by (auto simp: make_overlay_eq split: option.splits)
  moreover from Cons.prems(2)
  have "distinct (map fst (obj_set ov k (obj_set sub (display lc) (Leaf (next_id w) (overlay_visual w k n)))))"
    by (rule distinct_obj_set)
  ultimately show ?case by (rule Cons.IH)
qed

lemma getOverlays_loop_distinct:
  "getOverlays_loop ks ov w = Inr (ov', w') \<Longrightarrow> distinct (map fst ov) \<Longrightarrow>
   distinct (map fst ov')"
proof (induction ks arbitrary: ov w)
  case Nil
  then show ?case by simp
next
  case (Cons k ks)
  from Cons.prems(1) obtain ov1 w1 where
    1: "overlays_of_level k (layers_slice1 w) (obj_set ov k []) w = Inr (ov1, w1)"
    and 2: "getOverlays_loop ks ov1 w1 = Inr (ov', w')"
    by (auto split: sum.splits)
  from Cons.prems(2) have "distinct (map fst (obj_set ov k []))" by (rule distinct_obj_set)
  with 1 have "distinct (map fst ov1)" by (rule overlays_of_level_distinct)
  with 2 show ?case by (rule Cons.IH)
qed

lemma initialize_Inr:
  assumes "initialize w = Inr w'"
  obtains ov we where "getOverlays (before_overlays w) = Inr (ov, we)" "w' = after_overlays ov we"
  using assms by (auto simp: initialize_eq split: sum.splits)

lemma level_names_before: "level_names (before_overlays w) = level_names w"
  by (rule level_names_env) (rule same_env_before_overlays)

lemma baseLayers_keys:
  "fst ` set (w_baseLayers (before_overlays w)) = set (level_names w)"
proof -
  let ?wb = "w\<lparr>w_webmap := init_view w\<rparr>"
  have "the_map ?wb = the_map w" by (simp add: the_map_def)
  then show ?thesis
    by (simp add: before_overlays_fields getBaseLayersForMap_def getBaseLayers_loop_keys
        level_names_def map_fst_own_entries[symmetric] del: map_fst_own_entries)
qed

lemma baseLayers_distinct: "distinct (map fst (w_baseLayers (before_overlays w)))"
  by (simp add: before_overlays_fields getBaseLayersForMap_def getBaseLayers_loop_distinct)


lemma station_level_keys: "own_keys (levels (the_map station_new)) = [''L1'', ''L2'']"
  by code_simp


lemma set_fold_removeLayer: "set (fold (\<lambda>l. removeLayer (LeafLayer l)) ls c) \<subseteq> set c"
proof (induction ls arbitrary: c)
  case Nil
  show ?case by simp
next
  case (Cons l ls)
  have "set (fold (\<lambda>l. removeLayer (LeafLayer l)) ls (removeLayer (LeafLayer l) c))
        \<subseteq> set (removeLayer (LeafLayer l) c)"
    by (rule Cons.IH)
  also have "\<dots> \<subseteq> set c" by (rule set_removeLayer)
  finally show ?case by simp
qed

lemma overlay_entries_remove_all:
  assumes "overlay_entries c = []"
  shows "overlay_entries (remove_all ov c) = []"
  using assms set_fold_removeLayer[of "overlay_leaves ov" c]
  by (auto simp: overlay_entries_def filter_empty_conv remove_all_fold)

lemma overlay_entries_base_entries_of: "overlay_entries (base_entries_of bl) = []"
  by (auto simp: overlay_entries_def filter_empty_conv dest: base_entries_of_props(1))

lemma view_layers_init_view: "view_layers (init_view w) = view_layers (w_webmap w)"
  by (simp add: init_view_def fitBounds_def setMaxBounds_def)


lemma station_configured: "overlays_configured station_new"
  by code_simp

lemma station_main_group:
  "obj_get (w_baseLayers station_state) (mainLevel (the_map station_new))
   = Some (Group 1 [Leaf 0 (TileLayer ''station/L1/floor/{z}/{x}/{y}.png'' None 0 4 4 256)])"
  by code_simp

lemma station_main_entries:
  "map entry_name (level_entries (w_overlays station_state) (mainLevel (the_map station_new)))
   = [''Electrical'', ''Plumbing'']"
  by code_simp

lemma station_view_before: "view_layers (w_webmap station_new) = []"
  by code_simp


text \<open>
  Claim C7. When \<open>initialize\<close> returns, the calls of the path getter it made are, in
  order: for every level, \<open>(mapName, underlayName, layers[0])\<close> for each underlay of the
  level and then \<open>(mapName, levelName, layers[0])\<close> for the primary visual; after that,
  for every level, \<open>(mapName, levelName, layerName)\<close> for each layer name in
  \<open>layers.slice(1)\<close>. The third argument of an underlay is the primary layer name,
  never the name of the underlay.
\<close>

theorem pathGetter_calls:
  assumes "initialize w = Inr w'"
  shows "pg_calls w'
         = pg_calls w
           @ concat (map (\<lambda>(levelName, level).
                 map (\<lambda>underlayName. (mapName w, underlayName, layers0 w)) (level_underlays level)
                 @ [(mapName w, levelName, layers0 w)])
               (own_entries (levels (the_map w))))
           @ concat (map (\<lambda>levelName.
                 map (\<lambda>layerName. (mapName w, levelName, Some layerName)) (layers_slice1 w))
               (own_keys (levels (the_map w))))"
proof -
  from assms obtain ov we where g: "getOverlays (before_overlays w) = Inr (ov, we)"
    and w': "w' = after_overlays ov we"
    by (rule initialize_Inr)
  note r = getOverlays_Inr[OF g]
  have env: "same_env w (before_overlays w)" by (rule same_env_before_overlays)
  have "pg_calls w' = pg_calls w @ base_calls w @ overlay_calls w (level_names w)"
    by (simp add: w' after_overlays_fields r(2) before_overlays_fields same_env_funs[OF env]
        level_names_before)
  then show ?thesis
    by (simp add: base_calls_def level_calls_def overlay_calls_def overlay_calls_level_def
        level_names_def)
qed

lemma station_calls_before: "pg_calls station_new = []"
  by code_simp

theorem pathGetter_calls_witness:
  "initialize station_new = Inr station_state
   \<and> pg_calls station_state
       = [(''station'', ''L1'', Some ''floor''),
          (''station'', ''basement'', Some ''floor''),
          (''station'', ''L2'', Some ''floor''),
          (''station'', ''L1'', Some ''electrical''),
          (''station'', ''L1'', Some ''plumbing''),
          (''station'', ''L2'', Some ''electrical''),
          (''station'', ''L2'', Some ''plumbing'')]"
proof -
  have "concat (map (\<lambda>(levelName, level).
                 map (\<lambda>underlayName. (mapName station_new, underlayName, layers0 station_new)) (level_underlays level)
                 @ [(mapName station_new, levelName, layers0 station_new)])
               (own_entries (levels (the_map station_new))))
           @ concat (map (\<lambda>levelName.
                 map (\<lambda>layerName. (mapName station_new, levelName, Some layerName)) (layers_slice1 station_new))
               (own_keys (levels (the_map station_new))))
        = [(''station'', ''L1'', Some ''floor''),
          (''station'', ''basement'', Some ''floor''),
          (''station'', ''L2'', Some ''floor''),
          (''station'', ''L1'', Some ''electrical''),
          (''station'', ''L1'', Some ''plumbing''),
          (''station'', ''L2'', Some ''electrical''),
          (''station'', ''L2'', Some ''plumbing'')]"
    by code_simp
  with pathGetter_calls[OF station_initialize] station_initialize show ?thesis
    by (simp add: station_calls_before)
qed

lemma rendered_visuals:
  "rendered w False (underlay_visual w u)"
  "rendered w False (base_visual w k)"
  "rendered w True (overlay_visual w k n)"
  by (simp_all add: rendered_def underlay_visual_def base_visual_def overlay_visual_def
      split: option.splits LayerSettings.splits)

lemma rendered_env:
  assumes "same_env w w'"
  shows "rendered w' = rendered w"
proof -
  from assms have "w_config w' = w_config w" by (simp add: same_env_def)
  with same_env_funs(1)[OF assms] show ?thesis
    by (simp add: rendered_def fun_eq_iff split: option.splits LayerSettings.splits)
qed

lemma new_underlays_visual:
  "l \<in> set (new_underlays w names) \<Longrightarrow> \<exists>u. leaf_visual l = underlay_visual w u"
  by (auto simp: new_underlays_def)

lemma level_group_rendered:
  "l \<in> set (members (level_group w k lvl)) \<Longrightarrow> rendered w False (leaf_visual l)"
  by (auto simp: level_group_def rendered_visuals dest: new_underlays_visual)

lemma baseLayers_rendered:
  assumes "obj_get (w_baseLayers (before_overlays w)) k = Some g" and "l \<in> set (members g)"
  shows "rendered w False (leaf_visual l)"
proof -
  let ?wb = "w\<lparr>w_webmap := init_view w\<rparr>"
  have env: "same_env w ?wb" by (simp add: same_env_def)
  from assms(1) have "(k, g) \<in> set (w_baseLayers (before_overlays w))"
    by (simp add: obj_get_def map_of_SomeD)
  then have in_loop: "(k, g) \<in> set (fst (getBaseLayers_loop (own_entries (levels (the_map ?wb))) [] ?wb))"
    by (simp add: before_overlays_fields getBaseLayersForMap_def)
  have "\<forall>l \<in> set (members g). rendered ?wb False (leaf_visual l)"
  proof (rule getBaseLayers_loop_groups[where P = "\<lambda>k g. \<forall>l \<in> set (members g). rendered ?wb False (leaf_visual l)",
        OF _ _ in_loop])
    show "\<forall>l \<in> set (members g'). rendered ?wb False (leaf_visual l)" if "(k', g') \<in> set []" for k' g'
      using that by simp
    show "\<forall>l \<in> set (members (level_group (advance cs n ?wb) k' lvl)). rendered ?wb False (leaf_visual l)"
      for k' lvl cs n
    proof -
      have "same_env ?wb (advance cs n ?wb)" by (simp add: same_env_def)
      from rendered_env[OF this] show ?thesis
        using level_group_rendered[of _ "advance cs n ?wb" k' lvl] by auto
    qed
  qed
  with assms(2) rendered_env[OF env] show ?thesis by simp
qed

lemma overlays_rendered:
  assumes "loop_result w ks [] ov" and "obj_get ov k = Some sub" and "obj_get sub lab = Some l"
  shows "rendered w True (leaf_visual l)"
proof -
  from assms(1,2) have "level_built w k sub" by (auto simp: loop_result_def obj_get_def)
  with assms(3) have "\<exists>n. leaf_visual l = overlay_visual w k n"
    unfolding level_built_def by blast
  then obtain n where "leaf_visual l = overlay_visual w k n" ..
  then show ?thesis by (simp add: rendered_visuals)
qed

text \<open>
  Claim C6. Under \<open>layerSettings.type === 'Tiles'\<close> every underlay, primary visual and
  overlay is a tile layer bound to the bounds of the map with \<open>maxZoom\<close> and
  \<open>maxNativeZoom\<close> 4; underlays and primary visuals have the configured tile size and
  overlays have tile size 1024. Under any other or absent \<open>layerSettings\<close> each of them
  is an image overlay bound to the bounds of the map. This holds for every member of
  every group of \<open>BaseLayers\<close> and every overlay of \<open>Overlays\<close> when \<open>initialize\<close> returns,
  and for the layer every single construction yields.
\<close>

theorem strategy_of_renderables:
  assumes "initialize w = Inr w'"
  shows "(\<forall>levelName grp l.
            obj_get (w_baseLayers w') levelName = Some grp \<and> l \<in> set (members grp)
            \<longrightarrow> rendered w False (leaf_visual l))
       \<and> (\<forall>levelName sub label l.
            obj_get (w_overlays w') levelName = Some sub \<and> obj_get sub label = Some l
            \<longrightarrow> rendered w True (leaf_visual l))
       \<and> rendered w False (leaf_visual (fst (make_underlay underlayName w)))
       \<and> rendered w False (leaf_visual (fst (make_baseLayer name w)))
       \<and> rendered w True (leaf_visual (fst (make_overlay name layerName w)))"
proof -
  from assms obtain ov we where g: "getOverlays (before_overlays w) = Inr (ov, we)"
    and w': "w' = after_overlays ov we"
    by (rule initialize_Inr)
  note r = getOverlays_Inr[OF g]
  have env: "same_env w (before_overlays w)" by (rule same_env_before_overlays)
  have bl: "w_baseLayers w' = w_baseLayers (before_overlays w)"
    by (simp add: w' after_overlays_fields r(2))
  have ov: "w_overlays w' = ov" by (simp add: w' after_overlays_fields)
  have a: "rendered w False (leaf_visual l)"
    if "obj_get (w_baseLayers w') levelName = Some grp" "l \<in> set (members grp)" for levelName grp l
    using that baseLayers_rendered[of w levelName grp l] by (simp add: bl)
  have b: "rendered w True (leaf_visual l)"
    if "obj_get (w_overlays w') levelName = Some sub" "obj_get sub label = Some l"
    for levelName sub label l
    using overlays_rendered[OF r(3)] that rendered_env[OF env] by (simp add: ov)
  have c: "rendered w False (leaf_visual (fst (make_underlay underlayName w)))"
    "rendered w False (leaf_visual (fst (make_baseLayer name w)))"
    "rendered w True (leaf_visual (fst (make_overlay name layerName w)))"
    by (simp_all add: make_underlay_eq make_baseLayer_eq make_overlay_eq rendered_visuals)
  from a b c show ?thesis by blast
qed

lemma station_L2_group:
  "obj_get (w_baseLayers station_state) ''L2''
   = Some (Group 4
       [Leaf 2 (TileLayer ''station/basement/floor/{z}/{x}/{y}.png'' (Some ''UnderlayLayer'') 0 4 4 256),
        Leaf 3 (TileLayer ''station/L2/floor/{z}/{x}/{y}.png'' None 0 4 4 256)])"
  by code_simp

lemma station_L2_overlays:
  "obj_get (w_overlays station_state) ''L2''
   = Some [(''Electrical'', Leaf 7 (TileLayer ''station/L2/electrical/{z}/{x}/{y}.png'' None 0 4 4 1024)),
           (''Plumbing'', Leaf 8 (TileLayer ''station/L2/plumbing/{z}/{x}/{y}.png'' None 0 4 4 1024))]"
  by code_simp

lemma station_rendered_tiles:
  "rendered station_new overlay v = tile_based 0 (if overlay then 1024 else 256) v"
  by (simp add: rendered_def station_new_def Webmap_new_def station_params_def station_config_def station_map_def
      the_map_def)

theorem strategy_of_renderables_witness:
  "initialize station_new = Inr station_state
   \<and> tile_based 0 256 (TileLayer ''station/basement/floor/{z}/{x}/{y}.png'' (Some ''UnderlayLayer'') 0 4 4 256)
   \<and> tile_based 0 256 (TileLayer ''station/L2/floor/{z}/{x}/{y}.png'' None 0 4 4 256)
   \<and> tile_based 0 1024 (TileLayer ''station/L2/plumbing/{z}/{x}/{y}.png'' None 0 4 4 1024)
   \<and> tile_based 0 1024 (leaf_visual (fst (make_overlay ''L2'' ''electrical'' station_new)))"
proof -
  note t = strategy_of_renderables[OF station_initialize, of "''basement''" "''L2''" "''electrical''"]
  from t have base: "\<And>l grp. obj_get (w_baseLayers station_state) ''L2'' = Some grp \<Longrightarrow> l \<in> set (members grp)
      \<Longrightarrow> rendered station_new False (leaf_visual l)"
    by blast
  from t have over: "\<And>sub label l. obj_get (w_overlays station_state) ''L2'' = Some sub \<Longrightarrow>
      obj_get sub label = Some l \<Longrightarrow> rendered station_new True (leaf_visual l)"
    by blast
  from t have site: "rendered station_new True (leaf_visual (fst (make_overlay ''L2'' ''electrical'' station_new)))"
    by blast
  have "obj_get [(''Electrical'', Leaf 7 (TileLayer ''station/L2/electrical/{z}/{x}/{y}.png'' None 0 4 4 1024)),
           (''Plumbing'', Leaf 8 (TileLayer ''station/L2/plumbing/{z}/{x}/{y}.png'' None (0::nat) 4 4 1024))]
          ''Plumbing''
        = Some (Leaf 8 (TileLayer ''station/L2/plumbing/{z}/{x}/{y}.png'' None 0 4 4 1024))"
    by (simp add: obj_get_def)
  from over[OF station_L2_overlays this] base[OF station_L2_group, of "Leaf 2 (TileLayer ''station/basement/floor/{z}/{x}/{y}.png'' (Some ''UnderlayLayer'') 0 4 4 256)"]
    base[OF station_L2_group, of "Leaf 3 (TileLayer ''station/L2/floor/{z}/{x}/{y}.png'' None 0 4 4 256)"]
    site station_initialize
  show ?thesis by (simp add: station_rendered_tiles)
qed

lemma length_own_entries: "length (own_entries ob) = card (fst ` set ob)"
proof -
  have "length (own_entries ob) = length (own_keys ob)" by (simp add: own_entries_map)
  also have "\<dots> = card (set (own_keys ob))" by (simp add: distinct_card distinct_own_keys)
  finally show ?thesis by (simp add: set_own_keys)
qed

lemma length_layers_slice1: "length (layers_slice1 w) = length (layers (the_map w)) - 1"
  by (simp add: layers_slice1_def)


lemma dup_initialize: "initialize dup_new = Inr dup_state"
proof -
  have "case initialize dup_new of Inl e \<Rightarrow> False | Inr w \<Rightarrow> True" by code_simp
  then show ?thesis by (simp add: dup_state_def split: sum.splits)
qed

lemma dup_overlays:
  "obj_get (w_overlays dup_state) ''L1''
   = Some [(''Utilities'', Leaf 3 (ImageOverlay ''station/L1/wires'' 0 None))]"
  by code_simp

lemma dup_layers: "layers (the_map dup_new) = [''floor'', ''pipes'', ''wires'']"
  by code_simp


lemma station_level_L1: "''L1'' \<in> set (own_keys (levels (the_map station_new)))"
  by code_simp

lemma station_distinct_labels: "distinct (map (label_of station_new) (layers_slice1 station_new))"
  by code_simp

lemma station_layers: "length (layers (the_map station_new)) = 3"
  by code_simp


lemma initialize_fail:
  assumes "\<not> overlays_configured w"
  shows "initialize w = Inl TypeError"
proof -
  have env: "same_env w (before_overlays w)" by (rule same_env_before_overlays)
  from assms have "\<not> overlays_configured (before_overlays w)"
    by (simp add: overlays_configured_def same_env_funs[OF env])
  then have "getOverlays (before_overlays w) = Inl TypeError" by (rule getOverlays_fail)
  then show ?thesis by (simp add: initialize_eq)
qed

lemma initialize_ok:
  assumes "overlays_configured w"
  shows "\<exists>w'. initialize w = Inr w'"
proof -
  have env: "same_env w (before_overlays w)" by (rule same_env_before_overlays)
  from assms have "overlays_configured (before_overlays w)"
    by (simp add: overlays_configured_def same_env_funs[OF env])
  from getOverlays_ok[OF this] show ?thesis by (auto simp: initialize_eq)
qed


lemma bare_facts:
  "layers_slice1 bare_new = [''wires'']" "\<not> configured bare_new ''wires''"
  "levels (the_map bare_new) = []"
  by code_simp+

lemma bare_getOverlays: "getOverlays bare_new = Inr ([], bare_new)"
  by (simp add: getOverlays_def bare_facts own_keys_def)


lemma missing_facts:
  "levels (the_map missing_new) \<noteq> []" "''wires'' \<in> set (layers_slice1 missing_new)"
  "\<not> configured missing_new ''wires''"
  by code_simp+

lemma station_all_configured: "\<forall>layerName \<in> set (layers_slice1 station_new). configured station_new layerName"
  by code_simp


end
